theory Spec2Isabelle
  imports Complex_Main
begin

section \<open>The Tetris session of \<^verbatim>\<open>src/components/tetris-game.tsx\<close>\<close>

text \<open>
  The component keeps the whole session in eleven \<^verbatim>\<open>useState\<close> fields and changes
  them through six callbacks: \<^verbatim>\<open>startGame\<close>, \<^verbatim>\<open>movePiece\<close>, \<^verbatim>\<open>rotatePiece\<close>,
  \<^verbatim>\<open>dropPiece\<close>, \<^verbatim>\<open>dropPieceToBottom\<close> and \<^verbatim>\<open>updateBoard\<close>. The model is a record
  of the eleven fields and one function per callback.

  A callback reads the fields through the constants its closure captured at the last
  render (\<^verbatim>\<open>board\<close>, \<^verbatim>\<open>position.y\<close>, \<^verbatim>\<open>level\<close>, ...): a \<^verbatim>\<open>setPosition\<close> call
  does not change what \<^verbatim>\<open>position\<close> denotes inside the running callback. So every
  function below has the rendered state \<open>s\<close> for its reads; \<^verbatim>\<open>updateBoard\<close>, which is
  also called after another setter has run, has a second argument \<open>t\<close>, the state
  as updated so far, which the functional updaters (\<^verbatim>\<open>setScore((prev) => ...)\<close>) read
  and all setters write. React queues the updates and applies them when it renders next.
  A setter called with a value, or with a function that only computes the new value,
  has the same effect there as at the place of its call, and the model applies it
  where it is called. The function passed to \<^verbatim>\<open>setRows\<close> calls two setters itself;
  it is modelled where React runs it, after the setters that \<^verbatim>\<open>updateBoard\<close> calls
  directly (see \<open>finishLock\<close>).
\<close>

subsection \<open>Data\<close>

text \<open>
  A board cell is \<^verbatim>\<open>{ color, merged } | null\<close>. \<open>Hole\<close> is the empty slot
  that JavaScript leaves in an array when an index beyond its length is assigned.
\<close>

datatype cell = Hole | Null | Cell string bool

type_synonym Board = "cell list list"

record Position =
  pos_x :: int
  pos_y :: int

text \<open>
  An entry of \<^verbatim>\<open>TETROMINOS\<close>: \<^verbatim>\<open>shape[rotation][y][x]\<close> is a number, non-zero where
  the piece has a block. The table itself is in \<^verbatim>\<open>@/lib/tetris-utils\<close>, which is not among
  the sources, so it is a parameter \<open>T\<close> of every function that reads it; a key with
  no entry is \<open>None\<close> (\<^verbatim>\<open>undefined\<close> in the code).
\<close>

record tetromino =
  shape :: "int list list list"
  color :: string

type_synonym table = "string \<Rightarrow> tetromino option"

text \<open>
  \<^verbatim>\<open>checkCollision(board, piece, x, y, rotation)\<close> is imported from the same missing
  module. The callbacks take it as the parameter \<open>cc\<close>.
\<close>

type_synonym collision = "Board \<Rightarrow> string \<Rightarrow> int \<Rightarrow> int \<Rightarrow> nat \<Rightarrow> bool"

text \<open>
  The score is a JavaScript number that only ever receives sums and products of
  natural numbers, or \<^verbatim>\<open>NaN\<close> once \<^verbatim>\<open>undefined\<close> has been multiplied into it.
\<close>

datatype jsnumber = Number nat | NaN

fun addNumber :: "jsnumber \<Rightarrow> jsnumber \<Rightarrow> jsnumber" where
  "addNumber (Number a) (Number b) = Number (a + b)"
| "addNumber _ _ = NaN"

datatype error = TypeError

record game =
  gameStarted :: bool
  gameOver :: bool
  score :: jsnumber
  rows :: nat
  level :: nat
  dropTime :: "real option"
  board :: Board
  currentPiece :: "string option"
  nextPiece :: "string option"
  position :: Position
  rotation :: nat

text \<open>
  Modelled from the spec: \<^verbatim>\<open>createEmptyBoard\<close> of \<^verbatim>\<open>@/lib/tetris-utils\<close> is missing;
  the spec's board is 20 rows of 10 columns, all empty after a reset.
\<close>

definition emptyRow :: "cell list" where
  "emptyRow = replicate 10 Null"

definition createEmptyBoard :: Board where
  "createEmptyBoard = replicate 20 (replicate 10 Null)"

text \<open>The initial values of the \<^verbatim>\<open>useState\<close> calls (lines 20 to 30).\<close>

definition initialGame :: game where
  "initialGame =
     \<lparr> gameStarted = False, gameOver = False, score = Number 0, rows = 0, level = 0,
       dropTime = None, board = createEmptyBoard, currentPiece = None, nextPiece = None,
       position = \<lparr> pos_x = 0, pos_y = 0 \<rparr>, rotation = 0 \<rparr>"

text \<open>
  \<^verbatim>\<open>if (currentPiece)\<close> on a \<^verbatim>\<open>string | null\<close>: \<^verbatim>\<open>null\<close> and the empty string are
  falsy.
\<close>

fun truthy :: "string option \<Rightarrow> bool" where
  "truthy None = False"
| "truthy (Some p) = (p \<noteq> [])"

subsection \<open>\<^verbatim>\<open>startGame\<close> (lines 60 to 85)\<close>

text \<open>
  The two results of \<^verbatim>\<open>getRandomPiece()\<close> are the arguments \<open>newPiece\<close> and
  \<open>nxt\<close>. \<^verbatim>\<open>TETROMINOS[newPiece].shape[0].length\<close> raises a TypeError when the table
  has no such key or the entry has no rotation state.
\<close>

definition startGame :: "table \<Rightarrow> string \<Rightarrow> string \<Rightarrow> game \<Rightarrow> error + game" where
  "startGame T newPiece nxt s =
     (case T newPiece of
        None \<Rightarrow> Inl TypeError
      | Some tet \<Rightarrow>
          (case shape tet of
             [] \<Rightarrow> Inl TypeError
           | m0 # _ \<Rightarrow>
               Inr (s\<lparr> board := createEmptyBoard, score := Number 0, rows := 0, level := 0,
                       dropTime := Some 1000, gameOver := False, gameStarted := True,
                       currentPiece := Some newPiece, nextPiece := Some nxt,
                       position := \<lparr> pos_x = (10 - int (length m0)) div 2, pos_y = 0 \<rparr>,
                       rotation := 0 \<rparr>)))"

subsection \<open>\<^verbatim>\<open>movePiece\<close> and \<^verbatim>\<open>rotatePiece\<close> (lines 88 to 107)\<close>

definition movePiece :: "collision \<Rightarrow> int \<Rightarrow> game \<Rightarrow> game" where
  "movePiece cc dir s =
     (case currentPiece s of
        None \<Rightarrow> s
      | Some cp \<Rightarrow>
          if \<not> gameOver s \<and> gameStarted s \<and>
             \<not> cc (board s) cp (pos_x (position s) + dir) (pos_y (position s)) (rotation s)
          then s\<lparr> position := (position s)\<lparr> pos_x := pos_x (position s) + dir \<rparr> \<rparr>
          else s)"

definition rotatePiece :: "collision \<Rightarrow> game \<Rightarrow> game" where
  "rotatePiece cc s =
     (case currentPiece s of
        None \<Rightarrow> s
      | Some cp \<Rightarrow>
          if \<not> gameOver s \<and> gameStarted s \<and> truthy (currentPiece s) then
            (let newRotation = (rotation s + 1) mod 4 in
             if \<not> cc (board s) cp (pos_x (position s)) (pos_y (position s)) newRotation
             then s\<lparr> rotation := newRotation \<rparr>
             else s)
          else s)"

subsection \<open>\<^verbatim>\<open>updateBoard\<close> (lines 135 to 218)\<close>

text \<open>
  The index pairs \<open>(y, x)\<close> with \<^verbatim>\<open>shape[y][x] !== 0\<close>, in the order in which the two
  nested \<^verbatim>\<open>for\<close> loops of lines 145 to 155 reach them.
\<close>

definition maskCells :: "int list list \<Rightarrow> (nat \<times> nat) list" where
  "maskCells shp =
     concat (map (\<lambda>(y, row). map (\<lambda>(x, v). (y, x)) (filter (\<lambda>(x, v). v \<noteq> 0) (enumerate 0 row)))
                 (enumerate 0 shp))"

text \<open>
  \<^verbatim>\<open>row[boardX] = c\<close>: a negative index sets a property and leaves every element as
  it is; an index beyond the end extends the array, leaving holes.
\<close>

definition setIndex :: "cell list \<Rightarrow> int \<Rightarrow> cell \<Rightarrow> cell list" where
  "setIndex row i c =
     (if i < 0 then row
      else if nat i < length row then row[nat i := c]
      else row @ replicate (nat i - length row) Hole @ [c])"

text \<open>
  \<^verbatim>\<open>newBoard[boardY][boardX] = c\<close>, reached with \<^verbatim>\<open>boardY >= 0\<close> only: when the board
  has no row \<^verbatim>\<open>boardY\<close>, \<^verbatim>\<open>newBoard[boardY]\<close> is \<^verbatim>\<open>undefined\<close> and the assignment
  raises a TypeError.
\<close>

definition setCell :: "Board \<Rightarrow> int \<Rightarrow> int \<Rightarrow> cell \<Rightarrow> error + Board" where
  "setCell b boardY boardX c =
     (if nat boardY < length b
      then Inr (b[nat boardY := setIndex (b ! nat boardY) boardX c])
      else Inl TypeError)"

fun mergeCells :: "Board \<Rightarrow> (nat \<times> nat) list \<Rightarrow> Position \<Rightarrow> cell \<Rightarrow> error + Board" where
  "mergeCells b [] pos c = Inr b"
| "mergeCells b ((y, x) # rest) pos c =
     (let boardY = int y + pos_y pos; boardX = int x + pos_x pos in
      if boardY \<ge> 0 then
        (case setCell b boardY boardX c of
           Inl e \<Rightarrow> Inl e
         | Inr b' \<Rightarrow> mergeCells b' rest pos c)
      else mergeCells b rest pos c)"

text \<open>\<^verbatim>\<open>newBoard[y].every((cell) => cell !== null)\<close>; \<^verbatim>\<open>every\<close> skips holes.\<close>

definition every :: "cell list \<Rightarrow> bool" where
  "every row = list_all (\<lambda>c. c \<noteq> Null) row"

text \<open>
  The loop of lines 158 to 167. \<open>y\<close> is the loop variable at the loop test; after a
  removal the code decrements it and the loop header increments it again, so the next
  test sees the same \<open>y\<close>. \<^verbatim>\<open>newBoard[y]\<close> is \<^verbatim>\<open>undefined\<close> beyond the last row, and
  calling \<^verbatim>\<open>every\<close> on it raises a TypeError.
\<close>

function clearRows :: "nat \<Rightarrow> Board \<Rightarrow> nat \<Rightarrow> error + (Board \<times> nat)" where
  "clearRows y b clearedRows =
     (if y < 20 then
        (if y < length b then
           (if every (b ! y)
            then clearRows y (emptyRow # (take y b @ drop (Suc y) b)) (clearedRows + 1)
            else clearRows (y + 1) b clearedRows)
         else Inl TypeError)
      else Inr (b, clearedRows))"
  by pat_completeness auto


text \<open>
  The scan terminates: a removal lowers the number of complete rows (the row put on top
  is not complete), and every other iteration advances \<open>y\<close>.
\<close>

termination
proof (relation "measure (\<lambda>(y, b, c). length (filter every b) + (20 - y))")
  show "wf (measure (\<lambda>(y, b, c). length (filter every b) + (20 - y)))"
    by simp
next
  fix y :: nat and b :: Board and clearedRows :: nat
  assume y: "y < length b" and full: "every (b ! y)"
  have split: "b = take y b @ b ! y # drop (Suc y) b"
    using y by (rule id_take_nth_drop)
  have "length (filter every b) =
        length (filter every (take y b @ b ! y # drop (Suc y) b))"
    using split by simp
  also have "\<dots> = Suc (length (filter every (take y b @ drop (Suc y) b)))"
    using full by simp
  finally have "length (filter every (emptyRow # (take y b @ drop (Suc y) b))) <
                length (filter every b)"
    by (simp add: emptyRow_def every_def list_all_iff)
  then show "((y, emptyRow # (take y b @ drop (Suc y) b), clearedRows + 1), (y, b, clearedRows))
             \<in> measure (\<lambda>(y, b, c). length (filter every b) + (20 - y))"
    by simp
next
  fix y :: nat and b :: Board and clearedRows :: nat
  assume "y < 20"
  then show "((y + 1, b, clearedRows), (y, b, clearedRows))
             \<in> measure (\<lambda>(y, b, c). length (filter every b) + (20 - y))"
    by simp
qed

text \<open>
  \<^verbatim>\<open>TETROMINOS[piece].shape[rotation]\<close>, \<open>None\<close> where the code would go on with
  \<^verbatim>\<open>undefined\<close> and raise at the next property access.
\<close>

definition maskOf :: "table \<Rightarrow> string \<Rightarrow> nat \<Rightarrow> int list list option" where
  "maskOf T piece rot =
     (case T piece of
        None \<Rightarrow> None
      | Some tet \<Rightarrow> if rot < length (shape tet) then Some (shape tet ! rot) else None)"

text \<open>
  Lines 141 to 167 for the rendered state \<open>s\<close>: the copy of the board with the
  current piece merged at \<^verbatim>\<open>position\<close> in its colour, then the scan. The result is
  \<^verbatim>\<open>newBoard\<close> and \<^verbatim>\<open>clearedRows\<close> as they stand at line 168.
\<close>

definition lockBoard :: "table \<Rightarrow> game \<Rightarrow> error + (Board \<times> nat)" where
  "lockBoard T s =
     (case currentPiece s of
        None \<Rightarrow> Inl TypeError
      | Some cp \<Rightarrow>
          (case T cp of
             None \<Rightarrow> Inl TypeError
           | Some tet \<Rightarrow>
               if rotation s < length (shape tet) then
                 (case mergeCells (board s) (maskCells (shape tet ! rotation s)) (position s)
                         (Cell (color tet) True) of
                    Inl e \<Rightarrow> Inl e
                  | Inr newBoard \<Rightarrow> clearRows 0 newBoard 0)
               else Inl TypeError))"

text \<open>
  \<^verbatim>\<open>[0, 40, 100, 300, 1200][clearedRows] * (level + 1)\<close>: beyond index 4 the array
  gives \<^verbatim>\<open>undefined\<close> and the product is \<^verbatim>\<open>NaN\<close>.
\<close>

definition points :: "nat \<Rightarrow> nat \<Rightarrow> jsnumber" where
  "points clearedRows lvl =
     (if clearedRows < 5 then Number ([0, 40, 100, 300, 1200] ! clearedRows * (lvl + 1))
      else NaN)"

text \<open>
  Lines 178 and 179, \<^verbatim>\<open>setScore((prev) => prev + points)\<close>: \<open>level s\<close> is the captured
  \<^verbatim>\<open>level\<close>, \<open>prev\<close> the score of \<open>t\<close>.
\<close>

definition scoreUpdate :: "nat \<Rightarrow> game \<Rightarrow> game \<Rightarrow> game" where
  "scoreUpdate clearedRows s t =
     t\<lparr> score := addNumber (score t) (points clearedRows (level s)) \<rparr>"

text \<open>
  The function passed to \<^verbatim>\<open>setRows\<close> (lines 180 to 191) on the state \<open>u\<close> in which
  React runs it: \<open>prev\<close> is the row count of \<open>u\<close>, and the \<^verbatim>\<open>setLevel\<close> and
  \<^verbatim>\<open>setDropTime\<close> it calls update \<open>u\<close>. \<^verbatim>\<open>Math.pow(0.8, n)\<close> is the real power:
  rounding to a double is not modelled.
\<close>

definition rowsUpdater :: "nat \<Rightarrow> game \<Rightarrow> game" where
  "rowsUpdater clearedRows u =
     (let newRows = rows u + clearedRows;
          u1 = (if newRows div 10 > rows u div 10
                then u\<lparr> level := level u + 1,
                        dropTime := Some (1000 * 0.8 ^ (newRows div 10)) \<rparr>
                else u)
      in u1\<lparr> rows := newRows \<rparr>)"

text \<open>
  Lines 195 to 217, the setters that \<^verbatim>\<open>updateBoard\<close> calls directly after the scoring;
  \<open>rnd\<close> is the result of \<^verbatim>\<open>getRandomPiece()\<close> at line 199.
\<close>

definition spawnNext :: "collision \<Rightarrow> string \<Rightarrow> int \<Rightarrow> string \<Rightarrow> Board \<Rightarrow> game \<Rightarrow> game" where
  "spawnNext cc np newPieceWidth rnd newBoard t =
     (let t2 = t\<lparr> board := newBoard, currentPiece := Some np, nextPiece := Some rnd,
                  position := \<lparr> pos_x = (10 - newPieceWidth) div 2, pos_y = 0 \<rparr>,
                  rotation := 0 \<rparr>
      in if cc newBoard np ((10 - newPieceWidth) div 2) 0 0
         then t2\<lparr> gameOver := True, dropTime := None \<rparr>
         else t2)"

text \<open>
  Lines 170 to 217 in the order in which their updates take effect. When rows were
  cleared, \<^verbatim>\<open>setScore\<close> has queued an update before \<^verbatim>\<open>setRows\<close> is called, so React
  does not run the function passed to \<^verbatim>\<open>setRows\<close> at the call: it runs it when it
  renders next, after the setters of lines 195 to 213 have been queued. The
  \<^verbatim>\<open>setLevel\<close> and \<^verbatim>\<open>setDropTime\<close> inside it are then the last updates of the level
  and of the drop interval, also after \<^verbatim>\<open>setDropTime(null)\<close> of line 213.
\<close>

definition finishLock ::
  "collision \<Rightarrow> string \<Rightarrow> int \<Rightarrow> string \<Rightarrow> Board \<Rightarrow> nat \<Rightarrow> game \<Rightarrow> game \<Rightarrow> game" where
  "finishLock cc np newPieceWidth rnd newBoard clearedRows s t =
     (if clearedRows > 0
      then rowsUpdater clearedRows
             (spawnNext cc np newPieceWidth rnd newBoard (scoreUpdate clearedRows s t))
      else spawnNext cc np newPieceWidth rnd newBoard t)"

text \<open>The whole callback.\<close>

definition updateBoard :: "collision \<Rightarrow> table \<Rightarrow> string \<Rightarrow> game \<Rightarrow> game \<Rightarrow> error + game" where
  "updateBoard cc T rnd s t =
     (if \<not> truthy (currentPiece s) \<or> \<not> truthy (nextPiece s) then Inr t
      else
        (case lockBoard T s of
           Inl e \<Rightarrow> Inl e
         | Inr (newBoard, clearedRows) \<Rightarrow>
             (case nextPiece s of
                None \<Rightarrow> Inr t
              | Some np \<Rightarrow>
                  (case T np of
                     None \<Rightarrow> Inl TypeError
                   | Some tet \<Rightarrow>
                       (case shape tet of
                          [] \<Rightarrow> Inl TypeError
                        | m0 # _ \<Rightarrow>
                            Inr (finishLock cc np (int (length m0)) rnd newBoard clearedRows
                                   s t))))))"

subsection \<open>\<^verbatim>\<open>dropPiece\<close> and \<^verbatim>\<open>dropPieceToBottom\<close> (lines 110 to 132)\<close>

definition dropPiece :: "collision \<Rightarrow> table \<Rightarrow> string \<Rightarrow> game \<Rightarrow> error + game" where
  "dropPiece cc T rnd s =
     (case currentPiece s of
        None \<Rightarrow> Inr s
      | Some cp \<Rightarrow>
          if \<not> gameOver s \<and> gameStarted s \<and> truthy (currentPiece s) then
            (if \<not> cc (board s) cp (pos_x (position s)) (pos_y (position s) + 1) (rotation s)
             then Inr (s\<lparr> position := (position s)\<lparr> pos_y := pos_y (position s) + 1 \<rparr> \<rparr>)
             else updateBoard cc T rnd s s)
          else Inr s)"

text \<open>
  The \<^verbatim>\<open>while\<close> loop of lines 125 to 127. Nothing in the callback bounds it: it ends
  when \<^verbatim>\<open>checkCollision\<close> answers true. \<open>None\<close> is the loop that never ends.
\<close>

partial_function (option) dropLoop ::
  "collision \<Rightarrow> Board \<Rightarrow> string \<Rightarrow> int \<Rightarrow> nat \<Rightarrow> int \<Rightarrow> int option" where
  "dropLoop cc b cp px rot newY =
     (if \<not> cc b cp px (newY + 1) rot then dropLoop cc b cp px rot (newY + 1)
      else Some newY)"

text \<open>
  \<^verbatim>\<open>setPosition\<close> at line 128 goes into the updated state; \<^verbatim>\<open>updateBoard()\<close> at line
  130 is the closure of the same render and still reads the rendered \<open>s\<close>.
\<close>

definition dropPieceToBottom :: "collision \<Rightarrow> table \<Rightarrow> string \<Rightarrow> game \<Rightarrow> (error + game) option" where
  "dropPieceToBottom cc T rnd s =
     (case currentPiece s of
        None \<Rightarrow> Some (Inr s)
      | Some cp \<Rightarrow>
          if \<not> gameOver s \<and> gameStarted s \<and> truthy (currentPiece s) then
            (case dropLoop cc (board s) cp (pos_x (position s)) (rotation s) (pos_y (position s)) of
               None \<Rightarrow> None
             | Some newY \<Rightarrow>
                 Some (updateBoard cc T rnd s (s\<lparr> position := (position s)\<lparr> pos_y := newY \<rparr> \<rparr>)))
          else Some (Inr s))"


subsection \<open>The actions of a session\<close>

text \<open>
  What \<^verbatim>\<open>handleKeyDown\<close> (lines 237 to 258), the props of \<^verbatim>\<open>GameControls\<close> and the
  \<^verbatim>\<open>useInterval\<close> of line 267 call: \<^verbatim>\<open>movePiece(dir)\<close>, \<^verbatim>\<open>rotatePiece()\<close>,
  \<^verbatim>\<open>dropPiece()\<close> (the down key and the timer tick) and \<^verbatim>\<open>dropPieceToBottom()\<close>.
\<close>

datatype action = Move int | Rotate | SoftDrop | HardDrop

fun act :: "collision \<Rightarrow> table \<Rightarrow> string \<Rightarrow> action \<Rightarrow> game \<Rightarrow> (error + game) option" where
  "act cc T rnd (Move dir) s = Some (Inr (movePiece cc dir s))"
| "act cc T rnd Rotate s = Some (Inr (rotatePiece cc s))"
| "act cc T rnd SoftDrop s = Some (dropPiece cc T rnd s)"
| "act cc T rnd HardDrop s = dropPieceToBottom cc T rnd s"

text \<open>
  What is assumed of \<^verbatim>\<open>getRandomPiece()\<close> and the table: the key drawn is a non-empty
  string with an entry, and no rotation state of that entry has more than four rows.
\<close>

definition validPiece :: "table \<Rightarrow> string \<Rightarrow> bool" where
  "validPiece T p =
     (p \<noteq> [] \<and> (case T p of None \<Rightarrow> False
                 | Some tet \<Rightarrow> list_all (\<lambda>m. length m \<le> 4) (shape tet)))"

fun validSlot :: "table \<Rightarrow> string option \<Rightarrow> bool" where
  "validSlot T None = False"
| "validSlot T (Some p) = validPiece T p"

text \<open>
  The states of a session: the initial render, then any sequence of starts and actions
  that return.
\<close>

inductive reachable :: "collision \<Rightarrow> table \<Rightarrow> game \<Rightarrow> bool" for cc :: collision and T :: table where
  reach_init: "reachable cc T initialGame"
| reach_start: "reachable cc T s \<Longrightarrow> validPiece T p \<Longrightarrow> validPiece T q \<Longrightarrow>
     startGame T p q s = Inr s' \<Longrightarrow> reachable cc T s'"
| reach_act: "reachable cc T s \<Longrightarrow> validPiece T rnd \<Longrightarrow>
     act cc T rnd a s = Some (Inr s') \<Longrightarrow> reachable cc T s'"

text \<open>The invariant of a session that the proofs below carry along.\<close>

definition sessionInv :: "table \<Rightarrow> game \<Rightarrow> bool" where
  "sessionInv T s =
     (length (board s) = 20 \<and> list_all (\<lambda>r. \<not> every r) (board s) \<and>
      level s = rows s div 10 \<and> score s \<noteq> NaN \<and>
      (if gameStarted s
       then validSlot T (currentPiece s) \<and> validSlot T (nextPiece s) \<and>
            (if gameOver s
             then dropTime s = None \<or> dropTime s = Some (1000 * 0.8 ^ level s)
             else dropTime s = Some (1000 * 0.8 ^ level s))
       else dropTime s = None \<and> \<not> gameOver s))"

text \<open>
  An action locks the piece when it is a soft drop (or tick) of a running session whose
  piece cannot go one row down, or a hard drop of a running session.
\<close>

definition running :: "game \<Rightarrow> bool" where
  "running s = (\<not> gameOver s \<and> gameStarted s \<and> truthy (currentPiece s))"

fun locks :: "collision \<Rightarrow> action \<Rightarrow> game \<Rightarrow> bool" where
  "locks cc (Move dir) s = False"
| "locks cc Rotate s = False"
| "locks cc SoftDrop s =
     (running s \<and>
      (case currentPiece s of None \<Rightarrow> False
       | Some cp \<Rightarrow> cc (board s) cp (pos_x (position s)) (pos_y (position s) + 1) (rotation s)))"
| "locks cc HardDrop s = running s"

subsection \<open>The collision rule\<close>

text \<open>
  Modelled from the spec: \<^verbatim>\<open>checkCollision\<close> of \<^verbatim>\<open>@/lib/tetris-utils\<close> is missing. The
  spec's rule: a placement collides iff an occupied cell of the rotation mask maps to a
  board cell outside the columns 0 to 9, at or below row 20, or occupied on the board;
  cells above the board (negative row) are checked for the columns only. A piece or
  rotation without a mask has no occupied cell.
\<close>

definition occupied :: "Board \<Rightarrow> int \<Rightarrow> int \<Rightarrow> bool" where
  "occupied b boardX boardY =
     (nat boardY < length b \<and> nat boardX < length (b ! nat boardY) \<and>
      (case b ! nat boardY ! nat boardX of Cell _ _ \<Rightarrow> True | _ \<Rightarrow> False))"

definition blocked :: "Board \<Rightarrow> int \<Rightarrow> int \<Rightarrow> bool" where
  "blocked b boardX boardY =
     (boardX < 0 \<or> boardX \<ge> 10 \<or> boardY \<ge> 20 \<or> (boardY \<ge> 0 \<and> occupied b boardX boardY))"

definition checkCollision :: "table \<Rightarrow> collision" where
  "checkCollision T b piece px py rot =
     (case maskOf T piece rot of
        None \<Rightarrow> False
      | Some m \<Rightarrow> list_ex (\<lambda>(y, x). blocked b (int x + px) (int y + py)) (maskCells m))"

text \<open>
  The cells that line 151 assigns, as (\<^verbatim>\<open>boardY\<close>, \<^verbatim>\<open>boardX\<close>), for a mask at a position.
\<close>

definition mergeWrites :: "int list list \<Rightarrow> Position \<Rightarrow> (int \<times> int) list" where
  "mergeWrites shp pos =
     filter (\<lambda>(boardY, boardX). boardY \<ge> 0)
       (map (\<lambda>(y, x). (int y + pos_y pos, int x + pos_x pos)) (maskCells shp))"

definition wellShaped :: "Board \<Rightarrow> bool" where
  "wellShaped b = (length b = 20 \<and> list_all (\<lambda>r. length r = 10) b)"

subsection \<open>An example table\<close>

text \<open>
  Two entries in the layout the code reads (four rotation states each, rows of numbers),
  for the closed instances of the theorems below. The repository's own table is not
  among the sources.
\<close>

definition demoTable :: table where
  "demoTable p =
     (if p = ''O'' then
        Some \<lparr> shape = [[[1, 1], [1, 1]], [[1, 1], [1, 1]], [[1, 1], [1, 1]], [[1, 1], [1, 1]]],
               color = ''yellow'' \<rparr>
      else if p = ''I'' then
        Some \<lparr> shape = [[[0, 0, 0, 0], [1, 1, 1, 1], [0, 0, 0, 0], [0, 0, 0, 0]],
                        [[0, 0, 1, 0], [0, 0, 1, 0], [0, 0, 1, 0], [0, 0, 1, 0]],
                        [[0, 0, 0, 0], [0, 0, 0, 0], [1, 1, 1, 1], [0, 0, 0, 0]],
                        [[0, 1, 0, 0], [0, 1, 0, 0], [0, 1, 0, 0], [0, 1, 0, 0]]],
               color = ''cyan'' \<rparr>
      else None)"

text \<open>The session right after \<^verbatim>\<open>startGame\<close> drew O, then I.\<close>

definition demoStart :: game where
  "demoStart =
     \<lparr> gameStarted = True, gameOver = False, score = Number 0, rows = 0, level = 0,
       dropTime = Some 1000, board = createEmptyBoard, currentPiece = Some ''O'',
       nextPiece = Some ''I'', position = \<lparr> pos_x = 4, pos_y = 0 \<rparr>, rotation = 0 \<rparr>"

text \<open>
  A board whose bottom row lacks the columns 4 and 5, with the O piece resting in
  that gap, one row above it empty.
\<close>

definition gapRow :: "cell list" where
  "gapRow = replicate 4 (Cell ''cyan'' True) @ [Null, Null] @ replicate 4 (Cell ''cyan'' True)"

definition demoGap :: game where
  "demoGap =
     \<lparr> gameStarted = True, gameOver = False, score = Number 0, rows = 9, level = 0,
       dropTime = Some 1000, board = replicate 19 emptyRow @ [gapRow],
       currentPiece = Some ''O'', nextPiece = Some ''I'',
       position = \<lparr> pos_x = 4, pos_y = 18 \<rparr>, rotation = 0 \<rparr>"

text \<open>The board of \<open>demoGap\<close> with the O piece merged, before the scan.\<close>

definition mergedGap :: Board where
  "mergedGap = replicate 18 emptyRow @
     [replicate 4 Null @ [Cell ''yellow'' True, Cell ''yellow'' True] @ replicate 4 Null,
      replicate 4 (Cell ''cyan'' True) @ [Cell ''yellow'' True, Cell ''yellow'' True] @
        replicate 4 (Cell ''cyan'' True)]"

text \<open>The session after the lock of \<open>demoGap\<close>, when the next draw is O.\<close>

definition demoGapAfter :: game where
  "demoGapAfter =
     \<lparr> gameStarted = True, gameOver = False, score = Number 40, rows = 10, level = 1,
       dropTime = Some 800,
       board = replicate 19 emptyRow @
                 [replicate 4 Null @ [Cell ''yellow'' True, Cell ''yellow'' True] @ replicate 4 Null],
       currentPiece = Some ''I'', nextPiece = Some ''O'',
       position = \<lparr> pos_x = 3, pos_y = 0 \<rparr>, rotation = 0 \<rparr>"

text \<open>A board with two complete rows around an incomplete one, for the scan.\<close>

definition fullRow :: "cell list" where
  "fullRow = replicate 10 (Cell ''cyan'' True)"

definition demoScan :: Board where
  "demoScan = replicate 17 emptyRow @ [fullRow, gapRow, fullRow]"

text \<open>The started session with the O piece at the left wall.\<close>

definition demoLeft :: game where
  "demoLeft = demoStart\<lparr> position := \<lparr> pos_x = 0, pos_y = 0 \<rparr> \<rparr>"

text \<open>
  The session after \<^verbatim>\<open>dropPieceToBottom\<close> on \<open>demoStart\<close> when the next draw is O: the
  O piece lies in the rows 0 and 1 and the game is over.
\<close>

definition topRow :: "cell list" where
  "topRow = replicate 4 Null @ [Cell ''yellow'' True, Cell ''yellow'' True] @ replicate 4 Null"

definition demoOver :: game where
  "demoOver =
     \<lparr> gameStarted = True, gameOver = True, score = Number 0, rows = 0, level = 0,
       dropTime = None, board = [topRow, topRow] @ replicate 18 emptyRow,
       currentPiece = Some ''I'', nextPiece = Some ''O'',
       position = \<lparr> pos_x = 3, pos_y = 0 \<rparr>, rotation = 0 \<rparr>"

text \<open>
  The assignments of line 151 carried out one after the other on a list of
  (\<^verbatim>\<open>boardY\<close>, \<^verbatim>\<open>boardX\<close>).
\<close>

fun writeCells :: "Board \<Rightarrow> (int \<times> int) list \<Rightarrow> cell \<Rightarrow> error + Board" where
  "writeCells b [] c = Inr b"
| "writeCells b ((boardY, boardX) # ws) c =
     (case setCell b boardY boardX c of
        Inl e \<Rightarrow> Inl e
      | Inr b' \<Rightarrow> writeCells b' ws c)"

text \<open>
  A running session one cleared row short of level 1: the column 3 is filled from row 0
  to row 19, the bottom row lacks only the columns 4 and 5, and the O piece rests in
  that gap. The on-deck piece is I.
\<close>

definition colRow :: "cell list" where
  "colRow = [Null, Null, Null, Cell ''cyan'' True] @ [Null, Null] @ replicate 4 Null"

definition demoTall :: game where
  "demoTall =
     \<lparr> gameStarted = True, gameOver = False, score = Number 0, rows = 9, level = 0,
       dropTime = Some 1000, board = replicate 18 colRow @ [colRow, gapRow],
       currentPiece = Some ''O'', nextPiece = Some ''I'',
       position = \<lparr> pos_x = 4, pos_y = 18 \<rparr>, rotation = 0 \<rparr>"

text \<open>The board of \<open>demoTall\<close> with the O piece merged, before the scan.\<close>

definition tallMerged :: Board where
  "tallMerged = replicate 18 colRow @
     [[Null, Null, Null, Cell ''cyan'' True] @ [Cell ''yellow'' True, Cell ''yellow'' True] @
        replicate 4 Null,
      replicate 4 (Cell ''cyan'' True) @ [Cell ''yellow'' True, Cell ''yellow'' True] @
        replicate 4 (Cell ''cyan'' True)]"

text \<open>The board of \<open>demoTall\<close> after the merge and the scan.\<close>

definition tallBoard :: Board where
  "tallBoard = emptyRow # replicate 18 colRow @
     [[Null, Null, Null, Cell ''cyan'' True] @ [Cell ''yellow'' True, Cell ''yellow'' True] @
        replicate 4 Null]"

text \<open>The session after the lock of \<open>demoTall\<close>, when the next draw is O.\<close>

definition demoTallAfter :: game where
  "demoTallAfter =
     \<lparr> gameStarted = True, gameOver = True, score = Number 40, rows = 10, level = 1,
       dropTime = Some 800, board = tallBoard,
       currentPiece = Some ''I'', nextPiece = Some ''O'',
       position = \<lparr> pos_x = 3, pos_y = 0 \<rparr>, rotation = 0 \<rparr>"



text \<open>
  A session played with O pieces only, for a state in which the level has risen. Five O
  pieces side by side fill the rows 18 and 19: \<open>oBoard k\<close> is the board with \<open>k\<close> of
  them in place, and \<open>oState k n\<close> the session with that board after \<open>n\<close> such pairs
  of rows were cleared, the next O piece at its spawn position.
\<close>

definition oRow :: "nat \<Rightarrow> cell list" where
  "oRow k = replicate (2 * k) (Cell ''yellow'' True) @ replicate (10 - 2 * k) Null"

definition oBoard :: "nat \<Rightarrow> Board" where
  "oBoard k = replicate 18 emptyRow @ [oRow k, oRow k]"

definition oState :: "nat \<Rightarrow> nat \<Rightarrow> game" where
  "oState k n =
     \<lparr> gameStarted = True, gameOver = False, score = Number (100 * n), rows = 2 * n,
       level = (2 * n) div 10, dropTime = Some (1000 * 0.8 ^ ((2 * n) div 10)),
       board = oBoard k, currentPiece = Some ''O'', nextPiece = Some ''O'',
       position = \<lparr> pos_x = 4, pos_y = 0 \<rparr>, rotation = 0 \<rparr>"

text \<open>The state \<open>s\<close> with the piece at another anchor.\<close>

definition place :: "game \<Rightarrow> int \<Rightarrow> int \<Rightarrow> game" where
  "place s px py = s\<lparr> position := \<lparr> pos_x = px, pos_y = py \<rparr> \<rparr>"

section \<open>Properties\<close>

subsection \<open>The clear scan\<close>

declare clearRows.simps [simp del]

lemma not_every_emptyRow: "\<not> every emptyRow"
  by (simp add: every_def emptyRow_def list_all_iff)

lemma clearRows_closed:
  "length b = 20 \<Longrightarrow> y \<le> 20 \<Longrightarrow> list_all (\<lambda>r. \<not> every r) (take y b) \<Longrightarrow>
   clearRows y b c =
     Inr (replicate (length (filter every b)) emptyRow @ filter (\<lambda>r. \<not> every r) b,
          c + length (filter every b))"
proof (induction y b c rule: clearRows.induct)
  case (1 y b c)
  show ?case
  proof (cases "y < 20")
    case False
    with "1.prems" have y20: "y = 20" by simp
    with "1.prems" have nofull: "list_all (\<lambda>r. \<not> every r) b" by simp
    then have "filter every b = []" and "filter (\<lambda>r. \<not> every r) b = b"
      by (auto simp: list_all_iff filter_empty_conv filter_id_conv)
    with y20 show ?thesis
      by (simp add: clearRows.simps)
  next
    case True
    with "1.prems" have ylen: "y < length b" by simp
    have split: "b = take y b @ b ! y # drop (Suc y) b"
      using ylen by (rule id_take_nth_drop)
    show ?thesis
    proof (cases "every (b ! y)")
      case full: True
      let ?b' = "emptyRow # (take y b @ drop (Suc y) b)"
      have len': "length ?b' = 20"
        using "1.prems"(1) ylen by simp
      have pre': "list_all (\<lambda>r. \<not> every r) (take y ?b')"
      proof (cases y)
        case 0
        then show ?thesis by simp
      next
        case (Suc n)
        have "set (take n b) \<subseteq> set (take (Suc n) b)"
          by (rule set_take_subset_set_take) simp
        moreover have "take y ?b' = emptyRow # take n b"
          using Suc ylen by (simp add: min_def)
        ultimately show ?thesis
          using "1.prems"(3) not_every_emptyRow Suc by (auto simp: list_all_iff)
      qed
      have cnt: "length (filter every b) = Suc (length (filter every (take y b @ drop (Suc y) b)))"
        by (subst split) (simp add: full)
      have keep: "filter (\<lambda>r. \<not> every r) b = filter (\<lambda>r. \<not> every r) (take y b @ drop (Suc y) b)"
        by (subst split) (simp add: full)
      have "clearRows y b c = clearRows y ?b' (c + 1)"
        using True ylen full by (subst clearRows.simps) simp
      also have "\<dots> = Inr (replicate (length (filter every ?b')) emptyRow @ filter (\<lambda>r. \<not> every r) ?b',
                            c + 1 + length (filter every ?b'))"
        using "1.IH"(1)[OF True ylen full len' "1.prems"(2) pre'] .
      finally show ?thesis
        using cnt keep not_every_emptyRow
        by (simp add: replicate_app_Cons_same)
    next
      case notfull: False
      have pre': "list_all (\<lambda>r. \<not> every r) (take (y + 1) b)"
        using "1.prems"(3) notfull ylen by (simp add: take_Suc_conv_app_nth)
      have "clearRows y b c = clearRows (y + 1) b c"
        using True ylen notfull by (subst clearRows.simps) simp
      also have "\<dots> = Inr (replicate (length (filter every b)) emptyRow @ filter (\<lambda>r. \<not> every r) b,
          c + length (filter every b))"
        using "1.IH"(2)[OF True ylen notfull "1.prems"(1) _ pre'] True by simp
      finally show ?thesis .
    qed
  qed
qed


subsection \<open>The merge\<close>

lemma maskCells_iff:
  "(y, x) \<in> set (maskCells m) \<longleftrightarrow> y < length m \<and> x < length (m ! y) \<and> m ! y ! x \<noteq> 0"
proof
  assume "(y, x) \<in> set (maskCells m)"
  then show "y < length m \<and> x < length (m ! y) \<and> m ! y ! x \<noteq> 0"
    by (auto simp: maskCells_def in_set_enumerate_eq)
next
  assume a: "y < length m \<and> x < length (m ! y) \<and> m ! y ! x \<noteq> 0"
  then have "(y, m ! y) \<in> set (enumerate 0 m)"
    and "(x, m ! y ! x) \<in> set (filter (\<lambda>(x, v). v \<noteq> 0) (enumerate 0 (m ! y)))"
    by (simp_all add: in_set_enumerate_eq)
  then show "(y, x) \<in> set (maskCells m)"
    unfolding maskCells_def by force
qed

lemma setCell_length: "setCell b boardY boardX c = Inr b' \<Longrightarrow> length b' = length b"
  by (auto simp: setCell_def split: if_splits)

lemma setCell_other:
  "setCell b boardY boardX c = Inr b' \<Longrightarrow> nat boardY \<noteq> i \<Longrightarrow> b' ! i = b ! i"
  by (auto simp: setCell_def split: if_splits)

lemma mergeCells_length:
  "mergeCells b cells pos c = Inr b' \<Longrightarrow> length b' = length b"
proof (induction cells arbitrary: b)
  case Nil
  then show ?case by simp
next
  case (Cons yx cells)
  obtain y x where yx: "yx = (y, x)" by (cases yx)
  show ?case
  proof (cases "int y + pos_y pos \<ge> 0")
    case True
    with Cons.prems yx obtain b1 where
      b1: "setCell b (int y + pos_y pos) (int x + pos_x pos) c = Inr b1"
      and rest: "mergeCells b1 cells pos c = Inr b'"
      by (auto simp: Let_def split: sum.splits)
    from Cons.IH[OF rest] setCell_length[OF b1] show ?thesis by simp
  next
    case False
    with Cons.prems yx have "mergeCells b cells pos c = Inr b'" by (simp add: Let_def)
    then show ?thesis by (rule Cons.IH)
  qed
qed

lemma mergeCells_other:
  "mergeCells b cells pos c = Inr b' \<Longrightarrow>
   list_all (\<lambda>(y, x). int y + pos_y pos \<noteq> int i) cells \<Longrightarrow> b' ! i = b ! i"
proof (induction cells arbitrary: b)
  case Nil
  then show ?case by simp
next
  case (Cons yx cells)
  obtain y x where yx: "yx = (y, x)" by (cases yx)
  from Cons.prems(2) yx have here: "int y + pos_y pos \<noteq> int i"
    and others: "list_all (\<lambda>(y, x). int y + pos_y pos \<noteq> int i) cells"
    by simp_all
  show ?case
  proof (cases "int y + pos_y pos \<ge> 0")
    case True
    with Cons.prems(1) yx obtain b1 where
      b1: "setCell b (int y + pos_y pos) (int x + pos_x pos) c = Inr b1"
      and rest: "mergeCells b1 cells pos c = Inr b'"
      by (auto simp: Let_def split: sum.splits)
    from True here have "nat (int y + pos_y pos) \<noteq> i" by linarith
    with setCell_other[OF b1] have "b1 ! i = b ! i" by simp
    with Cons.IH[OF rest others] show ?thesis by simp
  next
    case False
    with Cons.prems(1) yx have "mergeCells b cells pos c = Inr b'" by (simp add: Let_def)
    then show ?thesis using others by (rule Cons.IH)
  qed
qed

lemma merge_full_rows_bound:
  assumes merged: "mergeCells b (maskCells m) pos c = Inr nb"
    and nofull: "list_all (\<lambda>r. \<not> every r) b"
  shows "length (filter every nb) \<le> length m"
proof -
  let ?f = "\<lambda>y. nat (int y + pos_y pos)"
  have len: "length nb = length b"
    using merged by (rule mergeCells_length)
  have "{i. i < length nb \<and> every (nb ! i)} \<subseteq> ?f ` {..<length m}"
  proof
    fix i
    assume "i \<in> {i. i < length nb \<and> every (nb ! i)}"
    then have i: "i < length nb" and full: "every (nb ! i)" by simp_all
    from nofull i len have "\<not> every (b ! i)"
      by (simp add: list_all_length)
    with full have "nb ! i \<noteq> b ! i" by auto
    with mergeCells_other[OF merged, of i]
    have "\<not> list_all (\<lambda>(y, x). int y + pos_y pos \<noteq> int i) (maskCells m)" by auto
    then obtain y x where "(y, x) \<in> set (maskCells m)" and hit: "int y + pos_y pos = int i"
      by (auto simp: list_all_iff)
    then have "y < length m" by (simp add: maskCells_iff)
    moreover from hit have "?f y = i" by simp
    ultimately show "i \<in> ?f ` {..<length m}" by blast
  qed
  then have "card {i. i < length nb \<and> every (nb ! i)} \<le> card (?f ` {..<length m})"
    by (intro card_mono) simp_all
  also have "\<dots> \<le> card {..<length m}"
    by (rule card_image_le) simp
  finally show ?thesis
    by (simp add: length_filter_conv_card)
qed

subsection \<open>The lock sequence\<close>

lemma lockBoard_InrD:
  assumes "lockBoard T s = Inr (nb, cl)"
  obtains cp tet mb where "currentPiece s = Some cp" and "T cp = Some tet"
    and "rotation s < length (shape tet)"
    and "mergeCells (board s) (maskCells (shape tet ! rotation s)) (position s)
           (Cell (color tet) True) = Inr mb"
    and "clearRows 0 mb 0 = Inr (nb, cl)"
  using assms by (auto simp: lockBoard_def split: option.splits if_splits sum.splits)

lemma lockBoard_board:
  assumes lock: "lockBoard T s = Inr (nb, cl)" and len: "length (board s) = 20"
  shows "length nb = 20" and "list_all (\<lambda>r. \<not> every r) nb"
proof -
  from lock obtain cp tet mb where cp: "currentPiece s = Some cp" and tet: "T cp = Some tet"
    and rot: "rotation s < length (shape tet)"
    and merged: "mergeCells (board s) (maskCells (shape tet ! rotation s)) (position s)
           (Cell (color tet) True) = Inr mb"
    and scan: "clearRows 0 mb 0 = Inr (nb, cl)"
    by (rule lockBoard_InrD)
  from mergeCells_length[OF merged] len have mlen: "length mb = 20" by simp
  from clearRows_closed[OF mlen, of 0 0] scan
  have nb: "nb = replicate (length (filter every mb)) emptyRow @ filter (\<lambda>r. \<not> every r) mb"
    by simp
  have "length (filter every mb) + length (filter (\<lambda>r. \<not> every r) mb) = length mb"
    by (rule sum_length_filter_compl)
  with nb mlen show "length nb = 20" by simp
  from nb show "list_all (\<lambda>r. \<not> every r) nb"
    by (auto simp: list_all_iff not_every_emptyRow)
qed

lemma lockBoard_cleared:
  assumes lock: "lockBoard T s = Inr (nb, cl)" and len: "length (board s) = 20"
    and nofull: "list_all (\<lambda>r. \<not> every r) (board s)"
    and valid: "validSlot T (currentPiece s)"
  shows "cl \<le> 4"
proof -
  from lock obtain cp tet mb where cp: "currentPiece s = Some cp" and tet: "T cp = Some tet"
    and rot: "rotation s < length (shape tet)"
    and merged: "mergeCells (board s) (maskCells (shape tet ! rotation s)) (position s)
           (Cell (color tet) True) = Inr mb"
    and scan: "clearRows 0 mb 0 = Inr (nb, cl)"
    by (rule lockBoard_InrD)
  from mergeCells_length[OF merged] len have mlen: "length mb = 20" by simp
  from clearRows_closed[OF mlen, of 0 0] scan
  have "cl = length (filter every mb)" by simp
  also have "\<dots> \<le> length (shape tet ! rotation s)"
    using merged nofull by (rule merge_full_rows_bound)
  also have "\<dots> \<le> 4"
    using valid cp tet rot by (simp add: validPiece_def list_all_length)
  finally show ?thesis .
qed

lemma points_small:
  "cl \<le> 4 \<Longrightarrow> points cl lvl = Number ([0, 40, 100, 300, 1200] ! cl * (lvl + 1))"
  by (simp add: points_def)

lemma finishLock_frame:
  "board (finishLock cc np w rnd nb cl s t) = nb"
  "currentPiece (finishLock cc np w rnd nb cl s t) = Some np"
  "nextPiece (finishLock cc np w rnd nb cl s t) = Some rnd"
  "position (finishLock cc np w rnd nb cl s t) = \<lparr> pos_x = (10 - w) div 2, pos_y = 0 \<rparr>"
  "rotation (finishLock cc np w rnd nb cl s t) = 0"
  "gameStarted (finishLock cc np w rnd nb cl s t) = gameStarted t"
  "gameOver (finishLock cc np w rnd nb cl s t) = (cc nb np ((10 - w) div 2) 0 0 \<or> gameOver t)"
  by (simp_all add: finishLock_def rowsUpdater_def spawnNext_def scoreUpdate_def Let_def)

lemma finishLock_counters:
  "score (finishLock cc np w rnd nb cl s t) =
     (if cl > 0 then addNumber (score t) (points cl (level s)) else score t)"
  "rows (finishLock cc np w rnd nb cl s t) = rows t + cl"
  "level (finishLock cc np w rnd nb cl s t) =
     (if cl > 0 \<and> (rows t + cl) div 10 > rows t div 10 then level t + 1 else level t)"
  "dropTime (finishLock cc np w rnd nb cl s t) =
     (if cl > 0 \<and> (rows t + cl) div 10 > rows t div 10
      then Some (1000 * 0.8 ^ ((rows t + cl) div 10))
      else if cc nb np ((10 - w) div 2) 0 0 then None else dropTime t)"
  by (simp_all add: finishLock_def rowsUpdater_def spawnNext_def scoreUpdate_def Let_def)

lemma finishLock_position:
  "finishLock cc np w rnd nb cl s (t\<lparr> position := p \<rparr>) = finishLock cc np w rnd nb cl s t"
  by (simp add: finishLock_def rowsUpdater_def spawnNext_def scoreUpdate_def Let_def)

lemma updateBoard_position:
  assumes "truthy (currentPiece s)" and "truthy (nextPiece s)"
  shows "updateBoard cc T rnd s (t\<lparr> position := p \<rparr>) = updateBoard cc T rnd s t"
  using assms
  by (cases "nextPiece s")
     (simp_all add: updateBoard_def finishLock_position
        split: sum.splits prod.splits option.splits list.splits)

lemma updateBoard_InrD:
  assumes "updateBoard cc T rnd s t = Inr u"
    and "truthy (currentPiece s)" and "truthy (nextPiece s)"
  obtains nb cl np tet m0 ms where "lockBoard T s = Inr (nb, cl)"
    and "nextPiece s = Some np" and "T np = Some tet" and "shape tet = m0 # ms"
    and "u = finishLock cc np (int (length m0)) rnd nb cl s t"
  using assms
  by (cases "nextPiece s")
     (auto simp: updateBoard_def
        split: sum.splits prod.splits option.splits list.splits if_splits)

lemma level_step:
  assumes "cl \<le> 4"
  shows "(if (r + cl) div 10 > r div 10 then r div 10 + 1 else r div 10) = (r + cl) div (10::nat)"
  using assms by (auto; linarith)

subsection \<open>The invariant of a session\<close>

lemma validSlot_truthy: "validSlot T p \<Longrightarrow> truthy p"
  by (cases p) (simp_all add: validPiece_def)

lemma updateBoard_inv:
  assumes inv: "sessionInv T s" and run: "gameStarted s" "\<not> gameOver s"
    and rnd: "validPiece T rnd"
    and upd: "updateBoard cc T rnd s s = Inr u"
  shows "sessionInv T u"
proof -
  from inv run have len: "length (board s) = 20"
    and nofull: "list_all (\<lambda>r. \<not> every r) (board s)"
    and lvl: "level s = rows s div 10"
    and cur: "validSlot T (currentPiece s)" and nxt: "validSlot T (nextPiece s)"
    and dt: "dropTime s = Some (1000 * 0.8 ^ level s)"
    by (simp_all add: sessionInv_def)
  from inv obtain n where sc: "score s = Number n"
    by (cases "score s") (simp_all add: sessionInv_def)
  from upd validSlot_truthy[OF cur] validSlot_truthy[OF nxt]
  obtain nb cl np tet m0 ms where lock: "lockBoard T s = Inr (nb, cl)"
    and np: "nextPiece s = Some np" and "T np = Some tet" and "shape tet = m0 # ms"
    and u: "u = finishLock cc np (int (length m0)) rnd nb cl s s"
    by (rule updateBoard_InrD)
  note shape = lockBoard_board[OF lock len]
  have cl: "cl \<le> 4"
    using lock len nofull cur by (rule lockBoard_cleared)
  from nxt np have npv: "validPiece T np" by simp
  have lv: "level u = rows u div 10"
    using level_step[OF cl, of "rows s"] lvl
    by (auto simp: u finishLock_counters split: if_splits)
  have "score u \<noteq> NaN"
    using sc cl by (simp add: u finishLock_counters points_small)
  moreover have "dropTime u = Some (1000 * 0.8 ^ level u) \<or> (gameOver u \<and> dropTime u = None)"
  proof (cases "cl > 0 \<and> (rows s + cl) div 10 > rows s div 10")
    case True
    then have "dropTime u = Some (1000 * 0.8 ^ ((rows s + cl) div 10))"
      and "rows u = rows s + cl"
      by (simp_all add: u finishLock_counters)
    with lv show ?thesis by simp
  next
    case False
    then have same: "level u = level s"
      and d: "dropTime u =
               (if cc nb np ((10 - int (length m0)) div 2) 0 0 then None else dropTime s)"
      and g: "gameOver u = (cc nb np ((10 - int (length m0)) div 2) 0 0 \<or> gameOver s)"
      by (auto simp: u finishLock_counters finishLock_frame)
    show ?thesis
    proof (cases "cc nb np ((10 - int (length m0)) div 2) 0 0")
      case True
      with d g show ?thesis by simp
    next
      case False
      with d dt same show ?thesis by simp
    qed
  qed
  ultimately show ?thesis
    using shape run rnd npv lv
    by (auto simp: u sessionInv_def finishLock_frame)
qed

lemma initialGame_inv: "sessionInv T initialGame"
  by (simp add: sessionInv_def initialGame_def createEmptyBoard_def every_def list_all_iff)

lemma startGame_inv:
  assumes "startGame T p q s = Inr u" and "validPiece T p" and "validPiece T q"
  shows "sessionInv T u"
  using assms
  by (auto simp: startGame_def sessionInv_def createEmptyBoard_def every_def list_all_iff
      split: option.splits list.splits)

lemma sessionInv_position [simp]: "sessionInv T (s\<lparr> position := p \<rparr>) = sessionInv T s"
  by (simp add: sessionInv_def)

lemma sessionInv_rotation [simp]: "sessionInv T (s\<lparr> rotation := r \<rparr>) = sessionInv T s"
  by (simp add: sessionInv_def)

lemma movePiece_cases:
  "movePiece cc dir s = s \<or>
   movePiece cc dir s = s\<lparr> position := (position s)\<lparr> pos_x := pos_x (position s) + dir \<rparr> \<rparr>"
  by (simp add: movePiece_def split: option.splits)

lemma rotatePiece_cases:
  "rotatePiece cc s = s \<or> rotatePiece cc s = s\<lparr> rotation := (rotation s + 1) mod 4 \<rparr>"
  by (simp add: rotatePiece_def Let_def split: option.splits)

lemma movePiece_inv: "sessionInv T s \<Longrightarrow> sessionInv T (movePiece cc dir s)"
  using movePiece_cases[of cc dir s] by auto

lemma rotatePiece_inv: "sessionInv T s \<Longrightarrow> sessionInv T (rotatePiece cc s)"
  using rotatePiece_cases[of cc s] by auto

lemma dropPiece_cases:
  "dropPiece cc T rnd s =
     (if locks cc SoftDrop s then updateBoard cc T rnd s s
      else if running s
      then Inr (s\<lparr> position := (position s)\<lparr> pos_y := pos_y (position s) + 1 \<rparr> \<rparr>)
      else Inr s)"
  by (cases "currentPiece s") (simp_all add: dropPiece_def running_def)

lemma running_inv_truthy:
  assumes "sessionInv T s" and "running s"
  shows "truthy (currentPiece s)" and "truthy (nextPiece s)"
  using assms by (auto simp: sessionInv_def running_def intro: validSlot_truthy)

lemma dropPieceToBottom_cases:
  assumes "truthy (nextPiece s)"
    and "dropPieceToBottom cc T rnd s = Some r"
  shows "r = (if running s then updateBoard cc T rnd s s else Inr s)"
proof (cases "running s")
  case True
  with assms show ?thesis
    by (cases "currentPiece s")
       (auto simp: dropPieceToBottom_def running_def updateBoard_position split: option.splits)
next
  case False
  with assms show ?thesis
    by (cases "currentPiece s") (auto simp: dropPieceToBottom_def running_def)
qed

lemma dropPiece_inv:
  assumes inv: "sessionInv T s" and rnd: "validPiece T rnd"
    and drop: "dropPiece cc T rnd s = Inr u"
  shows "sessionInv T u"
proof (cases "locks cc SoftDrop s")
  case True
  with drop have upd: "updateBoard cc T rnd s s = Inr u"
    by (simp add: dropPiece_cases)
  from True have "gameStarted s" and "\<not> gameOver s"
    by (simp_all add: running_def)
  with inv show ?thesis using rnd upd by (rule updateBoard_inv)
next
  case False
  with drop inv show ?thesis
    by (auto simp: dropPiece_cases split: if_splits)
qed

lemma dropPieceToBottom_inv:
  assumes inv: "sessionInv T s" and rnd: "validPiece T rnd"
    and drop: "dropPieceToBottom cc T rnd s = Some (Inr u)"
  shows "sessionInv T u"
proof (cases "running s")
  case True
  then have run: "gameStarted s" "\<not> gameOver s" by (simp_all add: running_def)
  from running_inv_truthy(2)[OF inv True] drop True
  have "updateBoard cc T rnd s s = Inr u"
    by (auto dest: dropPieceToBottom_cases)
  with inv run rnd show ?thesis by (rule updateBoard_inv)
next
  case False
  with drop have "u = s"
    by (cases "currentPiece s") (auto simp: dropPieceToBottom_def running_def)
  with inv show ?thesis by simp
qed

lemma act_inv:
  assumes "sessionInv T s" and "validPiece T rnd" and "act cc T rnd a s = Some (Inr u)"
  shows "sessionInv T u"
  using assms
  by (cases a) (auto intro: movePiece_inv rotatePiece_inv dropPiece_inv dropPieceToBottom_inv)

lemma reachable_inv: "reachable cc T s \<Longrightarrow> sessionInv T s"
  by (induction rule: reachable.induct)
     (auto intro: initialGame_inv startGame_inv act_inv)

subsection \<open>The example session\<close>

lemma demo_maskO: "maskCells [[1, 1], [1, 1]] = [(0,0),(0,1),(1,0),(1,1)]"
  by (simp add: maskCells_def)

lemma emptyRow_expl: "emptyRow = replicate 4 Null @ [Null, Null] @ replicate 4 Null"
  by (simp add: emptyRow_def eval_nat_numeral)

lemma demo_merge:
  "mergeCells (replicate 19 emptyRow @ [gapRow]) [(0,0),(0,1),(1,0),(1,1)] \<lparr> pos_x = 4, pos_y = 18 \<rparr> (Cell ''yellow'' True) = Inr mergedGap"
proof -
  have b: "replicate 19 emptyRow @ [gapRow] = replicate 18 emptyRow @ [emptyRow, gapRow]"
    by (simp add: eval_nat_numeral replicate_append_same)
  show ?thesis
    unfolding b
    by (simp add: setCell_def setIndex_def Let_def nth_append list_update_append mergedGap_def
        emptyRow_expl gapRow_def)
qed

lemma demo_maskI: "maskCells [[0, 0, 0, 0], [1, 1, 1, 1], [0, 0, 0, 0], [0, 0, 0, 0]] = [(1,0),(1,1),(1,2),(1,3)]"
  by (simp add: maskCells_def)

lemma demo_scan:
  "clearRows 0 mergedGap 0 = Inr (board demoGapAfter, 1)"
proof -
  have len: "length mergedGap = 20"
    by (simp add: mergedGap_def)
  have full: "filter every mergedGap =
      [replicate 4 (Cell ''cyan'' True) @ [Cell ''yellow'' True, Cell ''yellow'' True] @
        replicate 4 (Cell ''cyan'' True)]"
    by (simp add: mergedGap_def not_every_emptyRow) (simp add: every_def list_all_iff)
  have rest: "filter (\<lambda>r. \<not> every r) mergedGap = replicate 18 emptyRow @
     [replicate 4 Null @ [Cell ''yellow'' True, Cell ''yellow'' True] @ replicate 4 Null]"
    by (simp add: mergedGap_def not_every_emptyRow) (simp add: every_def list_all_iff)
  have "replicate 19 emptyRow = emptyRow # replicate 18 emptyRow"
    by (simp add: eval_nat_numeral)
  then show ?thesis
    using clearRows_closed[OF len, of 0 0]
    by (simp add: full rest demoGapAfter_def)
qed

lemma demo_lock: "lockBoard demoTable demoGap = Inr (board demoGapAfter, 1)"
  using demo_merge demo_scan
  by (simp add: lockBoard_def demoTable_def demoGap_def demo_maskO)

lemma demo_spawn_free: "\<not> checkCollision demoTable (board demoGapAfter) ''I'' 3 0 0"
  by (simp add: checkCollision_def maskOf_def demoTable_def demo_maskI blocked_def occupied_def
      demoGapAfter_def nth_append emptyRow_def)

lemma demo_update:
  "updateBoard (checkCollision demoTable) demoTable ''O'' demoGap demoGap = Inr demoGapAfter"
proof -
  have fin: "finishLock (checkCollision demoTable) ''I'' 4 ''O'' (board demoGapAfter) (Suc 0)
               demoGap demoGap = demoGapAfter"
    using demo_spawn_free
    by (simp add: finishLock_def rowsUpdater_def spawnNext_def scoreUpdate_def points_def Let_def)
       (simp add: demoGap_def demoGapAfter_def)
  have nxt: "nextPiece demoGap = Some ''I''" and cur: "currentPiece demoGap = Some ''O''"
    by (simp_all add: demoGap_def)
  show ?thesis
    by (simp add: updateBoard_def demo_lock nxt cur fin demoTable_def)
qed

subsection \<open>The clear scan and the board after a lock\<close>

text \<open>
  C2. Step 2 of the lock sequence, \<open>clearRows\<close> started at row 0 with count 0 on a board of
  20 rows: at a row index \<open>y\<close> below 20 the scan tests the row with \<open>every\<close> (for a row
  of 10 cells: all 10 are non-null); a complete row is removed and an empty row is put at
  index 0, so the rows above \<open>y\<close> move down by one and the rows below stay, the count grows
  by one and the same index is tested again; otherwise the scan goes on to \<open>y + 1\<close>. At
  the end the board is the incomplete rows in their order under as many empty rows as
  there were complete rows, and the count is the number of complete rows, all removed.
\<close>

theorem scan_removes_complete_rows:
  assumes "length b = 20" and "y < 20"
  shows "clearRows 0 b 0 =
           Inr (replicate (length (filter every b)) emptyRow @ filter (\<lambda>r. \<not> every r) b,
                length (filter every b)) \<and>
         clearRows y b c =
           (if every (b ! y)
            then clearRows y (emptyRow # (take y b @ drop (Suc y) b)) (c + 1)
            else clearRows (y + 1) b c) \<and>
         (emptyRow # (take y b @ drop (Suc y) b)) ! 0 = emptyRow \<and>
         (\<forall>i<y. (emptyRow # (take y b @ drop (Suc y) b)) ! Suc i = b ! i) \<and>
         (\<forall>j. y < j \<and> j < 20 \<longrightarrow> (emptyRow # (take y b @ drop (Suc y) b)) ! j = b ! j) \<and>
         (length (b ! y) = 10 \<longrightarrow> every (b ! y) = (\<forall>i<10. b ! y ! i \<noteq> Null))"
proof (intro conjI)
  show "clearRows 0 b 0 =
           Inr (replicate (length (filter every b)) emptyRow @ filter (\<lambda>r. \<not> every r) b,
                length (filter every b))"
    using clearRows_closed[OF assms(1), of 0 0] by simp
  show "clearRows y b c =
           (if every (b ! y)
            then clearRows y (emptyRow # (take y b @ drop (Suc y) b)) (c + 1)
            else clearRows (y + 1) b c)"
    using assms by (subst clearRows.simps) simp
  show "(emptyRow # (take y b @ drop (Suc y) b)) ! 0 = emptyRow"
    by simp
  show "\<forall>i<y. (emptyRow # (take y b @ drop (Suc y) b)) ! Suc i = b ! i"
    using assms by (simp add: nth_append)
  show "\<forall>j. y < j \<and> j < 20 \<longrightarrow> (emptyRow # (take y b @ drop (Suc y) b)) ! j = b ! j"
  proof (intro allI impI)
    fix j
    assume j: "y < j \<and> j < 20"
    then obtain k where k: "j = Suc k" and "y \<le> k"
      by (cases j) auto
    with assms j show "(emptyRow # (take y b @ drop (Suc y) b)) ! j = b ! j"
      by (simp add: nth_append min_def)
  qed
  show "length (b ! y) = 10 \<longrightarrow> every (b ! y) = (\<forall>i<10. b ! y ! i \<noteq> Null)"
    by (simp add: every_def list_all_length)
qed

theorem scan_removes_complete_rows_witness:
  "clearRows 0 demoScan 0 = Inr (replicate 19 emptyRow @ [gapRow], 2) \<and>
   clearRows 17 demoScan 0 =
     clearRows 17 (emptyRow # (take 17 demoScan @ drop (Suc 17) demoScan)) 1 \<and>
   clearRows 18 demoScan 5 = clearRows 19 demoScan 5"
proof -
  have len: "length demoScan = 20"
    by (simp add: demoScan_def)
  have full: "every fullRow" and gap: "\<not> every gapRow"
    by (simp_all add: every_def fullRow_def gapRow_def list_all_iff)
  have cnt: "filter every demoScan = [fullRow, fullRow]"
    and rest: "filter (\<lambda>r. \<not> every r) demoScan = replicate 17 emptyRow @ [gapRow]"
    by (simp_all add: demoScan_def full gap not_every_emptyRow)
  have rep: "replicate 19 emptyRow = emptyRow # emptyRow # replicate 17 emptyRow"
    by (simp add: eval_nat_numeral)
  have r17: "demoScan ! 17 = fullRow" and r18: "demoScan ! 18 = gapRow"
    by (simp_all add: demoScan_def nth_append)
  from scan_removes_complete_rows[OF len, of 17 0] scan_removes_complete_rows[OF len, of 18 5]
  show ?thesis
    by (simp add: cnt rest rep r17 r18 full gap)
qed

text \<open>
  C3. A lock sequence that runs to its end on a board of 20 rows leaves a board of 20
  rows, none of which passes the completeness test of the scan: each row of the new
  board has a null cell.
\<close>

theorem lock_leaves_no_complete_row:
  assumes "length (board s) = 20" and "truthy (currentPiece s)" and "truthy (nextPiece s)"
    and "updateBoard cc T rnd s t = Inr u"
  shows "length (board u) = 20 \<and> list_all (\<lambda>r. \<not> every r) (board u) \<and>
         list_all (\<lambda>r. list_ex (\<lambda>c. c = Null) r) (board u)"
proof -
  from assms(4,2,3) obtain nb cl np tet m0 ms where lock: "lockBoard T s = Inr (nb, cl)"
    and np: "nextPiece s = Some np" and "T np = Some tet" and "shape tet = m0 # ms"
    and u: "u = finishLock cc np (int (length m0)) rnd nb cl s t"
    by (rule updateBoard_InrD)
  from u have "board u = nb" by (simp add: finishLock_frame)
  moreover note lockBoard_board[OF lock assms(1)]
  moreover have "\<not> every r \<longleftrightarrow> list_ex (\<lambda>c. c = Null) r" for r
    by (auto simp: every_def list_all_iff list_ex_iff)
  ultimately show ?thesis
    by (simp add: list_all_iff)
qed

theorem lock_leaves_no_complete_row_witness:
  "length (board demoGapAfter) = 20 \<and> list_all (\<lambda>r. \<not> every r) (board demoGapAfter) \<and>
   list_all (\<lambda>r. list_ex (\<lambda>c. c = Null) r) (board demoGapAfter) \<and>
   every (mergedGap ! 19)"
proof -
  have "length (board demoGap) = 20" and "truthy (currentPiece demoGap)"
    and "truthy (nextPiece demoGap)"
    by (simp_all add: demoGap_def)
  from lock_leaves_no_complete_row[OF this demo_update]
  show ?thesis
    by (simp add: mergedGap_def nth_append every_def list_all_iff)
qed

subsection \<open>Actions on the example session\<close>

lemma demoTable_valid: "validPiece demoTable ''O''" "validPiece demoTable ''I''"
  by (simp_all add: validPiece_def demoTable_def)

lemma demo_start: "startGame demoTable ''O'' ''I'' initialGame = Inr demoStart"
  by (simp add: startGame_def demoTable_def initialGame_def demoStart_def)

lemma act_idle:
  assumes "gameOver s \<or> \<not> gameStarted s"
  shows "act cc T rnd a s = Some (Inr s)"
  using assms
  by (cases a; cases "currentPiece s")
     (auto simp: movePiece_def rotatePiece_def dropPiece_def dropPieceToBottom_def)

subsection \<open>A session that reaches level 1\<close>

lemma place_fields [simp]:
  "board (place s px py) = board s" "currentPiece (place s px py) = currentPiece s"
  "nextPiece (place s px py) = nextPiece s" "rotation (place s px py) = rotation s"
  "gameOver (place s px py) = gameOver s" "gameStarted (place s px py) = gameStarted s"
  "score (place s px py) = score s" "rows (place s px py) = rows s"
  "level (place s px py) = level s" "dropTime (place s px py) = dropTime s"
  "position (place s px py) = \<lparr> pos_x = px, pos_y = py \<rparr>"
  by (simp_all add: place_def)

lemma place_place [simp]: "place (place s a b) px py = place s px py"
  by (simp add: place_def)

lemma reach_moves:
  assumes start: "reachable cc T (place s px py)" and rnd: "validPiece T rnd"
    and run: "gameStarted s" "\<not> gameOver s" and cp: "currentPiece s = Some cp"
    and free: "\<forall>j<k. \<not> cc (board s) cp (px + d * (int j + 1)) py (rotation s)"
  shows "reachable cc T (place s (px + d * int k) py)"
  using free
proof (induction k)
  case 0
  with start show ?case by simp
next
  case (Suc k)
  then have here: "reachable cc T (place s (px + d * int k) py)"
    and ok: "\<not> cc (board s) cp (px + d * (int k + 1)) py (rotation s)"
    by simp_all
  have "movePiece cc d (place s (px + d * int k) py) = place s (px + d * int (Suc k)) py"
    using ok run cp by (simp add: movePiece_def place_def algebra_simps)
  then have "act cc T rnd (Move d) (place s (px + d * int k) py) =
             Some (Inr (place s (px + d * int (Suc k)) py))"
    by simp
  with here rnd show ?case by (rule reach_act)
qed

lemma reach_drops:
  assumes start: "reachable cc T (place s px py)" and rnd: "validPiece T rnd"
    and run: "gameStarted s" "\<not> gameOver s" and cp: "currentPiece s = Some cp" "cp \<noteq> []"
    and free: "\<forall>j<k. \<not> cc (board s) cp px (py + int j + 1) (rotation s)"
  shows "reachable cc T (place s px (py + int k))"
  using free
proof (induction k)
  case 0
  with start show ?case by simp
next
  case (Suc k)
  then have here: "reachable cc T (place s px (py + int k))"
    and ok: "\<not> cc (board s) cp px (py + int k + 1) (rotation s)"
    by simp_all
  have "dropPiece cc T rnd (place s px (py + int k)) = Inr (place s px (py + int (Suc k)))"
    using ok run cp by (simp add: dropPiece_def place_def algebra_simps)
  then have "act cc T rnd SoftDrop (place s px (py + int k)) =
             Some (Inr (place s px (py + int (Suc k))))"
    by simp
  with here rnd show ?case by (rule reach_act)
qed


lemma oRow_nth:
  "i < 10 \<Longrightarrow> oRow k ! i = (if i < 2 * k then Cell ''yellow'' True else Null)"
  by (simp add: oRow_def nth_append)

lemma oRow_length: "k \<le> 5 \<Longrightarrow> length (oRow k) = 10"
  by (simp add: oRow_def)

lemma occupied_oBoard:
  assumes "k \<le> 5" and "0 \<le> bx" and "bx < 10" and "0 \<le> by" and "by < 20"
  shows "occupied (oBoard k) bx by = (18 \<le> by \<and> bx < 2 * int k)"
proof (cases "by < 18")
  case True
  with assms have "nat by < 18" by linarith
  then have "oBoard k ! nat by = emptyRow"
    by (simp add: oBoard_def nth_append)
  with assms True show ?thesis
    by (simp add: occupied_def emptyRow_def)
next
  case False
  with assms have "by = 18 \<or> by = 19" by linarith
  then have row: "oBoard k ! nat by = oRow k"
    by (auto simp: oBoard_def nth_append)
  have cell: "oRow k ! nat bx = (if nat bx < 2 * k then Cell ''yellow'' True else Null)"
    using assms by (intro oRow_nth) simp
  have "nat by < length (oBoard k)"
    using assms by (simp add: oBoard_def)
  moreover have "nat bx < length (oRow k)"
    using assms by (simp add: oRow_length)
  moreover have "(nat bx < 2 * k) = (bx < 2 * int k)"
    using assms by linarith
  ultimately show ?thesis
    using False by (simp add: occupied_def row cell)
qed

lemma O_collision:
  assumes "k \<le> 5" and "0 \<le> px" and "px \<le> 8" and "0 \<le> py" and "py \<le> 18"
  shows "checkCollision demoTable (oBoard k) ''O'' px py 0 = (17 \<le> py \<and> px < 2 * int k)"
proof -
  have "occupied (oBoard k) px py = (18 \<le> py \<and> px < 2 * int k)"
    and "occupied (oBoard k) (1 + px) py = (18 \<le> py \<and> 1 + px < 2 * int k)"
    and "occupied (oBoard k) px (1 + py) = (18 \<le> 1 + py \<and> px < 2 * int k)"
    and "occupied (oBoard k) (1 + px) (1 + py) = (18 \<le> 1 + py \<and> 1 + px < 2 * int k)"
    using assms by (simp_all add: occupied_oBoard)
  with assms show ?thesis
    by (auto simp: checkCollision_def maskOf_def demoTable_def demo_maskO blocked_def)
qed

lemma O_bottom: "checkCollision demoTable b ''O'' px 19 0"
  by (simp add: checkCollision_def maskOf_def demoTable_def demo_maskO blocked_def)

lemma setIndex_fill:
  "setIndex (replicate a x @ replicate (Suc b) Null) (int a) x = replicate (Suc a) x @ replicate b Null"
  by (simp add: setIndex_def list_update_append replicate_app_Cons_same)

lemma oRow_fill:
  assumes "k \<le> 4"
  shows "setIndex (setIndex (oRow k) (int (2 * k)) (Cell ''yellow'' True)) (int (Suc (2 * k)))
           (Cell ''yellow'' True) = oRow (Suc k)"
proof -
  from assms have "10 - 2 * k = Suc (Suc (8 - 2 * k))" by simp
  then have "oRow k = replicate (2 * k) (Cell ''yellow'' True) @ replicate (Suc (Suc (8 - 2 * k))) Null"
    by (simp add: oRow_def)
  then have "setIndex (setIndex (oRow k) (int (2 * k)) (Cell ''yellow'' True)) (int (Suc (2 * k)))
           (Cell ''yellow'' True) =
        replicate (Suc (Suc (2 * k))) (Cell ''yellow'' True) @ replicate (8 - 2 * k) Null"
    by (simp only: setIndex_fill)
  also have "\<dots> = oRow (Suc k)"
    by (simp add: oRow_def)
  finally show ?thesis .
qed

lemma O_merge:
  assumes "k \<le> 4"
  shows "mergeCells (oBoard k) [(0,0),(0,1),(1,0),(1,1)] \<lparr> pos_x = 2 * int k, pos_y = 18 \<rparr>
           (Cell ''yellow'' True) = Inr (oBoard (Suc k))"
proof -
  have i0: "2 * int k = int (2 * k)" and i1: "1 + int (2 * k) = int (Suc (2 * k))"
    by simp_all
  show ?thesis
    by (simp add: oBoard_def setCell_def Let_def nth_append list_update_append)
       (simp only: i0 i1 oRow_fill[OF assms])
qed

lemma oRow_every: "k \<le> 5 \<Longrightarrow> every (oRow k) = (k = 5)"
  by (auto simp: every_def oRow_def list_all_iff)

lemma oRow_0: "oRow 0 = emptyRow"
  by (simp add: oRow_def emptyRow_def)

lemma O_scan_keep:
  assumes "k \<le> 4"
  shows "clearRows 0 (oBoard k) 0 = Inr (oBoard k, 0)"
proof -
  have len: "length (oBoard k) = 20"
    by (simp add: oBoard_def)
  from assms have "\<not> every (oRow k)"
    by (simp add: oRow_every)
  then have "filter every (oBoard k) = []"
    and "filter (\<lambda>r. \<not> every r) (oBoard k) = oBoard k"
    by (simp_all add: oBoard_def not_every_emptyRow)
  with clearRows_closed[OF len, of 0 0] show ?thesis by simp
qed

lemma O_scan_clear: "clearRows 0 (oBoard 5) 0 = Inr (oBoard 0, 2)"
proof -
  have len: "length (oBoard 5) = 20"
    by (simp add: oBoard_def)
  have "every (oRow 5)"
    by (simp add: oRow_every)
  then have "filter every (oBoard 5) = [oRow 5, oRow 5]"
    and "filter (\<lambda>r. \<not> every r) (oBoard 5) = replicate 18 emptyRow"
    by (simp_all add: oBoard_def not_every_emptyRow)
  moreover have "emptyRow # emptyRow # replicate 18 emptyRow = replicate 18 emptyRow @ [emptyRow, emptyRow]"
    by (simp add: replicate_app_Cons_same replicate_append_same)
  ultimately show ?thesis
    using clearRows_closed[OF len, of 0 0] by (simp add: oBoard_def oRow_0)
qed


lemma O_lock_keep:
  assumes "k \<le> 3"
  shows "lockBoard demoTable (place (oState k n) (2 * int k) 18) = Inr (oBoard (Suc k), 0)"
proof -
  from assms have "k \<le> 4" and "Suc k \<le> 4" by simp_all
  from O_merge[OF this(1)] O_scan_keep[OF this(2)] show ?thesis
    by (simp add: lockBoard_def demoTable_def demo_maskO oState_def)
qed

lemma O_lock_clear:
  "lockBoard demoTable (place (oState 4 n) 8 18) = Inr (oBoard 0, 2)"
  using O_merge[of 4] O_scan_clear
  by (simp add: lockBoard_def demoTable_def demo_maskO oState_def)

lemma O_spawn_free: "k \<le> 5 \<Longrightarrow> \<not> checkCollision demoTable (oBoard k) ''O'' 4 0 0"
  by (simp add: O_collision)

lemma O_update_keep:
  assumes "k \<le> 3"
  shows "updateBoard (checkCollision demoTable) demoTable ''O''
           (place (oState k n) (2 * int k) 18) (place (oState k n) (2 * int k) 18) =
         Inr (oState (Suc k) n)"
proof -
  from assms have "\<not> checkCollision demoTable (oBoard (Suc k)) ''O'' 4 0 0"
    by (simp add: O_spawn_free)
  then have fin: "finishLock (checkCollision demoTable) ''O'' 2 ''O'' (oBoard (Suc k)) 0
          (place (oState k n) (2 * int k) 18) (place (oState k n) (2 * int k) 18) =
        oState (Suc k) n"
    by (simp add: finishLock_def spawnNext_def Let_def place_def oState_def)
  have nxt: "nextPiece (oState k n) = Some ''O''"
    and cur: "currentPiece (oState k n) = Some ''O''"
    by (simp_all add: oState_def)
  show ?thesis
    by (simp add: updateBoard_def O_lock_keep[OF assms] nxt cur fin demoTable_def)
qed

lemma O_update_clear:
  assumes "n \<le> 4"
  shows "updateBoard (checkCollision demoTable) demoTable ''O''
           (place (oState 4 n) 8 18) (place (oState 4 n) 8 18) =
         Inr (oState 0 (Suc n))"
proof -
  have free: "\<not> checkCollision demoTable (oBoard 0) ''O'' 4 0 0"
    by (simp add: O_spawn_free)
  from assms consider "n = 0" | "n = 1" | "n = 2" | "n = 3" | "n = 4"
    by linarith
  then have fin: "finishLock (checkCollision demoTable) ''O'' 2 ''O'' (oBoard 0) 2
          (place (oState 4 n) 8 18) (place (oState 4 n) 8 18) =
        oState 0 (Suc n)"
    using free
    by cases
       (simp_all add: finishLock_def rowsUpdater_def spawnNext_def scoreUpdate_def points_def
          Let_def place_def oState_def)
  have nxt: "nextPiece (oState 4 n) = Some ''O''"
    and cur: "currentPiece (oState 4 n) = Some ''O''"
    by (simp_all add: oState_def)
  show ?thesis
    by (simp add: updateBoard_def O_lock_clear nxt cur fin demoTable_def)
qed

lemma oState_place: "place (oState k n) 4 0 = oState k n"
  by (simp add: place_def oState_def)

lemma oState_fields:
  "gameStarted (oState k n)" "\<not> gameOver (oState k n)" "currentPiece (oState k n) = Some ''O''"
  "board (oState k n) = oBoard k" "rotation (oState k n) = 0"
  by (simp_all add: oState_def)

lemma O_reach_column:
  assumes k: "k \<le> 4"
    and start: "reachable (checkCollision demoTable) demoTable (oState k n)"
  shows "reachable (checkCollision demoTable) demoTable (place (oState k n) (2 * int k) 0)"
proof (cases "k \<le> 2")
  case True
  have free: "\<forall>j<4 - 2 * k. \<not> checkCollision demoTable (board (oState k n)) ''O''
          (4 + (- 1) * (int j + 1)) 0 (rotation (oState k n))"
    using k True by (auto simp: oState_fields O_collision)
  have "reachable (checkCollision demoTable) demoTable
          (place (oState k n) (4 + (- 1) * int (4 - 2 * k)) 0)"
    by (rule reach_moves[where rnd = "''O''" and cp = "''O''"])
       (use start free in \<open>simp_all add: oState_place oState_fields demoTable_valid\<close>)
  moreover from True have "4 + (- 1) * int (4 - 2 * k) = 2 * int k" by simp
  ultimately show ?thesis by simp
next
  case False
  have free: "\<forall>j<2 * k - 4. \<not> checkCollision demoTable (board (oState k n)) ''O''
          (4 + 1 * (int j + 1)) 0 (rotation (oState k n))"
    using k False by (auto simp: oState_fields O_collision)
  have "reachable (checkCollision demoTable) demoTable
          (place (oState k n) (4 + 1 * int (2 * k - 4)) 0)"
    by (rule reach_moves[where rnd = "''O''" and cp = "''O''"])
       (use start free in \<open>simp_all add: oState_place oState_fields demoTable_valid\<close>)
  moreover from False have "4 + 1 * int (2 * k - 4) = 2 * int k" by simp
  ultimately show ?thesis by simp
qed

lemma O_reach_rest:
  assumes k: "k \<le> 4"
    and start: "reachable (checkCollision demoTable) demoTable (oState k n)"
  shows "reachable (checkCollision demoTable) demoTable (place (oState k n) (2 * int k) 18)"
proof -
  have free: "\<forall>j<18. \<not> checkCollision demoTable (board (oState k n)) ''O''
          (2 * int k) (0 + int j + 1) (rotation (oState k n))"
    using k by (auto simp: oState_fields O_collision)
  have "reachable (checkCollision demoTable) demoTable
          (place (oState k n) (2 * int k) (0 + int 18))"
    by (rule reach_drops[where rnd = "''O''" and cp = "''O''"])
       (use O_reach_column[OF k start] free in \<open>simp_all add: oState_fields demoTable_valid\<close>)
  then show ?thesis by simp
qed

lemma O_softDrop_locks:
  "dropPiece (checkCollision demoTable) demoTable ''O'' (place (oState k n) px 18) =
   updateBoard (checkCollision demoTable) demoTable ''O''
     (place (oState k n) px 18) (place (oState k n) px 18)"
  using O_bottom[of "oBoard k" px]
  by (simp add: dropPiece_def oState_fields)

lemma O_step_keep:
  assumes "k \<le> 3"
    and "reachable (checkCollision demoTable) demoTable (oState k n)"
  shows "reachable (checkCollision demoTable) demoTable (oState (Suc k) n)"
proof -
  from assms have r: "reachable (checkCollision demoTable) demoTable
                        (place (oState k n) (2 * int k) 18)"
    by (intro O_reach_rest) simp_all
  have a: "act (checkCollision demoTable) demoTable ''O'' SoftDrop
             (place (oState k n) (2 * int k) 18) = Some (Inr (oState (Suc k) n))"
    by (simp add: O_softDrop_locks O_update_keep[OF assms(1)])
  from r demoTable_valid(1) a show ?thesis by (rule reach_act)
qed

lemma O_step_clear:
  assumes "n \<le> 4"
    and "reachable (checkCollision demoTable) demoTable (oState 4 n)"
  shows "reachable (checkCollision demoTable) demoTable (oState 0 (Suc n))"
proof -
  from assms(2) have r: "reachable (checkCollision demoTable) demoTable
                           (place (oState 4 n) (2 * int 4) 18)"
    by (intro O_reach_rest) simp_all
  have a: "act (checkCollision demoTable) demoTable ''O'' SoftDrop
             (place (oState 4 n) (2 * int 4) 18) = Some (Inr (oState 0 (Suc n)))"
    using O_update_clear[OF assms(1)] by (simp add: O_softDrop_locks)
  from r demoTable_valid(1) a show ?thesis by (rule reach_act)
qed

lemma O_cycle:
  assumes "n \<le> 4"
    and "reachable (checkCollision demoTable) demoTable (oState 0 n)"
  shows "reachable (checkCollision demoTable) demoTable (oState 0 (Suc n))"
proof -
  from assms(2) have "reachable (checkCollision demoTable) demoTable (oState (Suc 0) n)"
    by (rule O_step_keep[rotated]) simp
  then have "reachable (checkCollision demoTable) demoTable (oState (Suc (Suc 0)) n)"
    by (rule O_step_keep[rotated]) simp
  then have "reachable (checkCollision demoTable) demoTable (oState (Suc (Suc (Suc 0))) n)"
    by (rule O_step_keep[rotated]) simp
  then have "reachable (checkCollision demoTable) demoTable (oState (Suc (Suc (Suc (Suc 0)))) n)"
    by (rule O_step_keep[rotated]) simp
  then have "reachable (checkCollision demoTable) demoTable (oState 4 n)"
    by (simp add: eval_nat_numeral)
  with assms(1) show ?thesis by (rule O_step_clear)
qed

lemma O_start: "startGame demoTable ''O'' ''O'' initialGame = Inr (oState 0 0)"
proof -
  have "createEmptyBoard = oBoard 0"
    by (simp add: createEmptyBoard_def oBoard_def oRow_0 emptyRow_def replicate_append_same
        eval_nat_numeral)
  then show ?thesis
    by (simp add: startGame_def demoTable_def initialGame_def oState_def)
qed

lemma O_levelUp_reachable: "reachable (checkCollision demoTable) demoTable (oState 0 5)"
proof -
  have "reachable (checkCollision demoTable) demoTable (oState 0 0)"
    using reach_init demoTable_valid(1) demoTable_valid(1) O_start by (rule reach_start)
  then have "reachable (checkCollision demoTable) demoTable (oState 0 (Suc 0))"
    by (rule O_cycle[rotated]) simp
  then have "reachable (checkCollision demoTable) demoTable (oState 0 (Suc (Suc 0)))"
    by (rule O_cycle[rotated]) simp
  then have "reachable (checkCollision demoTable) demoTable (oState 0 (Suc (Suc (Suc 0))))"
    by (rule O_cycle[rotated]) simp
  then have "reachable (checkCollision demoTable) demoTable
               (oState 0 (Suc (Suc (Suc (Suc 0)))))"
    by (rule O_cycle[rotated]) simp
  then have "reachable (checkCollision demoTable) demoTable
               (oState 0 (Suc (Suc (Suc (Suc (Suc 0))))))"
    by (rule O_cycle[rotated]) simp
  then show ?thesis
    by (simp add: eval_nat_numeral)
qed

subsection \<open>The level over a session\<close>

text \<open>
  C5. In every state of a session (the initial render, after \<open>startGame\<close>, after every
  action that returns) the level is the number of cleared rows divided by 10, rounded
  down. The level itself is only ever set to 0 or incremented by 1.
\<close>

theorem level_is_rows_div_10:
  assumes "reachable cc T s"
  shows "level s = rows s div 10"
  using reachable_inv[OF assms] by (simp add: sessionInv_def)

theorem level_is_rows_div_10_witness:
  "rows (oState 0 5) = 10 \<and> level (oState 0 5) = 1 \<and>
   level (oState 0 5) = rows (oState 0 5) div 10"
  using level_is_rows_div_10[OF O_levelUp_reachable]
  by (simp add: oState_def)

subsection \<open>Scoring\<close>

lemma base_zero_iff:
  "cl \<le> 4 \<Longrightarrow> ([0, 40, 100, 300, 1200] ! cl = (0::nat)) = (cl = 0)"
proof -
  assume "cl \<le> 4"
  then consider "cl = 0" | "cl = 1" | "cl = 2" | "cl = 3" | "cl = 4"
    by linarith
  then show ?thesis
    by cases simp_all
qed

lemma updateBoard_counters:
  assumes inv: "sessionInv T s" and run: "running s"
    and upd: "updateBoard cc T rnd s s = Inr u" and sc: "score s = Number n"
  shows "\<exists>nb cl. lockBoard T s = Inr (nb, cl) \<and> cl \<le> 4 \<and>
           score u = Number (n + [0, 40, 100, 300, 1200] ! min cl 4 * (level s + 1)) \<and>
           rows u = rows s + cl \<and> (score u = score s) = (cl = 0)"
proof -
  from inv run have len: "length (board s) = 20"
    and nofull: "list_all (\<lambda>r. \<not> every r) (board s)"
    and lvl: "level s = rows s div 10"
    and cur: "validSlot T (currentPiece s)"
    by (simp_all add: sessionInv_def running_def)
  from upd running_inv_truthy[OF inv run]
  obtain nb cl np tet m0 ms where lock: "lockBoard T s = Inr (nb, cl)"
    and np: "nextPiece s = Some np" and "T np = Some tet" and "shape tet = m0 # ms"
    and u: "u = finishLock cc np (int (length m0)) rnd nb cl s s"
    by (rule updateBoard_InrD)
  have cl: "cl \<le> 4"
    using lock len nofull cur by (rule lockBoard_cleared)
  have base0: "[0, 40, 100, 300, 1200] ! cl = (0::nat)" if "cl = 0"
    using that by simp
  have su: "score u = Number (n + [0, 40, 100, 300, 1200] ! cl * (level s + 1))"
    using sc cl base0 by (simp add: u finishLock_counters points_small)
  have ru: "rows u = rows s + cl"
    by (simp add: u finishLock_counters)
  from cl have m: "min cl 4 = cl" by simp
  from su sc base_zero_iff[OF cl] have "(score u = score s) = (cl = 0)"
    by auto
  with lock cl su ru m show ?thesis by simp
qed

text \<open>
  C4. In a state of a session, every action that returns either locks the piece or
  leaves score and row count as they are. When it locks and the scan removed \<open>cl\<close>
  rows, \<open>cl\<close> is at most 4, the score grows by the entry \<open>cl\<close> of
  \<open>[0, 40, 100, 300, 1200]\<close> times the level before the lock plus one, the row count
  grows by \<open>cl\<close>, and the score changes exactly when \<open>cl\<close> is positive. In either
  case the score after the action is a number not below the score before it.
\<close>

theorem lock_scores_by_table:
  assumes inv: "sessionInv T s" and rnd: "validPiece T rnd"
    and step: "act cc T rnd a s = Some (Inr u)"
  shows "\<exists>n. score s = Number n \<and>
           (if locks cc a s
            then \<exists>nb cl. lockBoard T s = Inr (nb, cl) \<and> cl \<le> 4 \<and>
                   score u = Number (n + [0, 40, 100, 300, 1200] ! min cl 4 * (level s + 1)) \<and>
                   rows u = rows s + cl \<and> (score u = score s) = (cl = 0)
            else score u = score s \<and> rows u = rows s) \<and>
           (\<exists>n'. score u = Number n' \<and> n \<le> n')"
proof -
  from inv obtain n where sc: "score s = Number n"
    by (cases "score s") (simp_all add: sessionInv_def)
  have "if locks cc a s
        then \<exists>nb cl. lockBoard T s = Inr (nb, cl) \<and> cl \<le> 4 \<and>
               score u = Number (n + [0, 40, 100, 300, 1200] ! min cl 4 * (level s + 1)) \<and>
               rows u = rows s + cl \<and> (score u = score s) = (cl = 0)
        else score u = score s \<and> rows u = rows s"
  proof (cases a)
    case (Move d)
    with step movePiece_cases[of cc d s] show ?thesis by auto
  next
    case Rotate
    with step rotatePiece_cases[of cc s] show ?thesis by auto
  next
    case SoftDrop
    show ?thesis
    proof (cases "locks cc SoftDrop s")
      case True
      with step SoftDrop have upd: "updateBoard cc T rnd s s = Inr u" and run: "running s"
        by (simp_all add: dropPiece_cases)
      from updateBoard_counters[OF inv run upd sc] True SoftDrop show ?thesis
        by (simp only: if_True)
    next
      case False
      with step SoftDrop show ?thesis
        by (auto simp: dropPiece_cases split: if_splits)
    qed
  next
    case HardDrop
    show ?thesis
    proof (cases "running s")
      case True
      from running_inv_truthy(2)[OF inv True] step HardDrop True
      have upd: "updateBoard cc T rnd s s = Inr u"
        by (auto dest: dropPieceToBottom_cases)
      from updateBoard_counters[OF inv True upd sc] True HardDrop show ?thesis
        by (simp only: locks.simps if_True)
    next
      case False
      with step HardDrop have "u = s"
        by (cases "currentPiece s") (auto simp: dropPieceToBottom_def running_def)
      with False HardDrop show ?thesis by simp
    qed
  qed
  moreover from this sc have "\<exists>n'. score u = Number n' \<and> n \<le> n'"
    by (auto split: if_splits)
  ultimately show ?thesis
    using sc by blast
qed

lemma demoGap_inv: "sessionInv demoTable demoGap"
  using demoTable_valid
  by (simp add: sessionInv_def demoGap_def not_every_emptyRow list_all_iff)
     (simp add: gapRow_def every_def)

lemma demoGap_softDrop:
  "act (checkCollision demoTable) demoTable ''O'' SoftDrop demoGap = Some (Inr demoGapAfter)"
proof -
  have "checkCollision demoTable (board demoGap) ''O'' 4 19 0"
    by (simp add: checkCollision_def maskOf_def demoTable_def demo_maskO blocked_def)
  then show ?thesis
    using demo_update by (simp add: dropPiece_def) (simp add: demoGap_def)
qed

theorem lock_scores_by_table_witness:
  "locks (checkCollision demoTable) SoftDrop demoGap \<and>
   lockBoard demoTable demoGap = Inr (board demoGapAfter, 1) \<and>
   score demoGap = Number 0 \<and> level demoGap = 0 \<and> rows demoGap = 9 \<and>
   score demoGapAfter = Number 40 \<and> rows demoGapAfter = 10"
proof -
  have l: "locks (checkCollision demoTable) SoftDrop demoGap"
    by (simp add: running_def demoGap_def checkCollision_def maskOf_def demoTable_def
        demo_maskO blocked_def)
  from lock_scores_by_table[OF demoGap_inv demoTable_valid(1) demoGap_softDrop] l demo_lock
  show ?thesis
    by (auto simp: demoGap_def)
qed

subsection \<open>Frame and game over\<close>

text \<open>
  C8. \<open>movePiece\<close> leaves every field but the \<open>x\<close> of the position as it is, and
  \<open>rotatePiece\<close> every field but the rotation. With a current piece: when
  \<^verbatim>\<open>checkCollision\<close> reports the candidate placement, the state is returned unchanged;
  when it does not and the session is running, the move adds \<open>dir\<close> to \<open>x\<close> and the
  rotation becomes \<open>(rotation + 1) mod 4\<close>.
\<close>

theorem move_rotate_frame:
  assumes "currentPiece s = Some cp"
  shows "(board (movePiece cc dir s) = board s \<and> score (movePiece cc dir s) = score s \<and>
          rows (movePiece cc dir s) = rows s \<and> level (movePiece cc dir s) = level s \<and>
          dropTime (movePiece cc dir s) = dropTime s \<and>
          currentPiece (movePiece cc dir s) = currentPiece s \<and>
          nextPiece (movePiece cc dir s) = nextPiece s \<and>
          gameStarted (movePiece cc dir s) = gameStarted s \<and>
          gameOver (movePiece cc dir s) = gameOver s \<and>
          rotation (movePiece cc dir s) = rotation s \<and>
          pos_y (position (movePiece cc dir s)) = pos_y (position s)) \<and>
         (board (rotatePiece cc s) = board s \<and> score (rotatePiece cc s) = score s \<and>
          rows (rotatePiece cc s) = rows s \<and> level (rotatePiece cc s) = level s \<and>
          dropTime (rotatePiece cc s) = dropTime s \<and>
          currentPiece (rotatePiece cc s) = currentPiece s \<and>
          nextPiece (rotatePiece cc s) = nextPiece s \<and>
          gameStarted (rotatePiece cc s) = gameStarted s \<and>
          gameOver (rotatePiece cc s) = gameOver s \<and>
          position (rotatePiece cc s) = position s) \<and>
         (cc (board s) cp (pos_x (position s) + dir) (pos_y (position s)) (rotation s) \<longrightarrow>
            movePiece cc dir s = s) \<and>
         (cc (board s) cp (pos_x (position s)) (pos_y (position s)) ((rotation s + 1) mod 4) \<longrightarrow>
            rotatePiece cc s = s) \<and>
         (running s \<and>
          \<not> cc (board s) cp (pos_x (position s) + dir) (pos_y (position s)) (rotation s) \<longrightarrow>
            movePiece cc dir s =
              s\<lparr> position := (position s)\<lparr> pos_x := pos_x (position s) + dir \<rparr> \<rparr>) \<and>
         (running s \<and>
          \<not> cc (board s) cp (pos_x (position s)) (pos_y (position s)) ((rotation s + 1) mod 4) \<longrightarrow>
            rotatePiece cc s = s\<lparr> rotation := (rotation s + 1) mod 4 \<rparr>)"
proof (intro conjI)
  show "cc (board s) cp (pos_x (position s) + dir) (pos_y (position s)) (rotation s) \<longrightarrow>
            movePiece cc dir s = s"
    using assms by (simp add: movePiece_def)
  show "cc (board s) cp (pos_x (position s)) (pos_y (position s)) ((rotation s + 1) mod 4) \<longrightarrow>
            rotatePiece cc s = s"
    using assms by (simp add: rotatePiece_def Let_def)
  show "running s \<and>
          \<not> cc (board s) cp (pos_x (position s) + dir) (pos_y (position s)) (rotation s) \<longrightarrow>
            movePiece cc dir s =
              s\<lparr> position := (position s)\<lparr> pos_x := pos_x (position s) + dir \<rparr> \<rparr>"
    using assms by (simp add: movePiece_def running_def)
  show "running s \<and>
          \<not> cc (board s) cp (pos_x (position s)) (pos_y (position s)) ((rotation s + 1) mod 4) \<longrightarrow>
            rotatePiece cc s = s\<lparr> rotation := (rotation s + 1) mod 4 \<rparr>"
    using assms by (simp add: rotatePiece_def running_def Let_def)
qed (use movePiece_cases[of cc dir s] rotatePiece_cases[of cc s] in auto)

theorem move_rotate_frame_witness:
  "movePiece (checkCollision demoTable) (- 1) demoLeft = demoLeft \<and>
   movePiece (checkCollision demoTable) 1 demoLeft =
     demoLeft\<lparr> position := \<lparr> pos_x = 1, pos_y = 0 \<rparr> \<rparr> \<and>
   rotatePiece (checkCollision demoTable) demoLeft = demoLeft\<lparr> rotation := 1 \<rparr>"
proof -
  have cp: "currentPiece demoLeft = Some ''O''" and run: "running demoLeft"
    by (simp_all add: demoLeft_def demoStart_def running_def)
  have left: "checkCollision demoTable (board demoLeft) ''O''
                (pos_x (position demoLeft) + (- 1)) (pos_y (position demoLeft)) (rotation demoLeft)"
    by (simp add: checkCollision_def maskOf_def demoTable_def demo_maskO blocked_def
        demoLeft_def demoStart_def)
  have right: "\<not> checkCollision demoTable (board demoLeft) ''O''
                (pos_x (position demoLeft) + 1) (pos_y (position demoLeft)) (rotation demoLeft)"
    by (simp add: checkCollision_def maskOf_def demoTable_def demo_maskO blocked_def
        occupied_def demoLeft_def demoStart_def createEmptyBoard_def)
  have rot: "\<not> checkCollision demoTable (board demoLeft) ''O''
                (pos_x (position demoLeft)) (pos_y (position demoLeft))
                ((rotation demoLeft + 1) mod 4)"
    by (simp add: checkCollision_def maskOf_def demoTable_def demo_maskO blocked_def
        occupied_def demoLeft_def demoStart_def createEmptyBoard_def)
  from move_rotate_frame[OF cp, of "checkCollision demoTable" "- 1"]
    move_rotate_frame[OF cp, of "checkCollision demoTable" 1] left right rot run
  show ?thesis
    by (simp add: demoLeft_def demoStart_def)
qed

text \<open>
  C9. Once the game is over, every action (a move by any \<open>dir\<close>, a rotation, a soft
  drop or tick, a hard drop) returns, raises no error and gives back the state it was
  given. \<open>startGame\<close> does not read the state it replaces: its result is the same from
  any state, and it is started and not over.
\<close>

theorem game_over_is_terminal:
  assumes "gameOver s"
  shows "act cc T rnd a s = Some (Inr s) \<and>
         startGame T p q s = startGame T p q s0 \<and>
         (\<forall>u. startGame T p q s = Inr u \<longrightarrow> gameStarted u \<and> \<not> gameOver u)"
proof -
  have "act cc T rnd a s = Some (Inr s)"
    using assms by (simp add: act_idle)
  moreover have "startGame T p q s = startGame T p q s0"
    by (cases s, cases s0) (simp add: startGame_def split: option.splits list.splits)
  moreover have "gameStarted u \<and> \<not> gameOver u" if "startGame T p q s = Inr u" for u
    using that by (auto simp: startGame_def split: option.splits list.splits)
  ultimately show ?thesis by blast
qed

theorem game_over_is_terminal_witness:
  "act (checkCollision demoTable) demoTable ''O'' HardDrop demoOver = Some (Inr demoOver) \<and>
   act (checkCollision demoTable) demoTable ''O'' SoftDrop demoOver = Some (Inr demoOver) \<and>
   act (checkCollision demoTable) demoTable ''O'' (Move (- 1)) demoOver = Some (Inr demoOver) \<and>
   act (checkCollision demoTable) demoTable ''O'' Rotate demoOver = Some (Inr demoOver) \<and>
   startGame demoTable ''O'' ''I'' demoOver = Inr demoStart"
proof -
  have over: "gameOver demoOver"
    by (simp add: demoOver_def)
  note inst = game_over_is_terminal[OF over, where cc = "checkCollision demoTable"
      and T = demoTable and rnd = "''O''" and p = "''O''" and q = "''I''" and ?s0.0 = initialGame]
  from inst[of HardDrop] inst[of SoftDrop] inst[of "Move (- 1)"] inst[of Rotate] demo_start
  show ?thesis
    by simp
qed

subsection \<open>The writes of the merge\<close>

lemma mergeCells_writeCells:
  "mergeCells b cells pos c =
     writeCells b (filter (\<lambda>(boardY, boardX). boardY \<ge> 0)
                     (map (\<lambda>(y, x). (int y + pos_y pos, int x + pos_x pos)) cells)) c"
proof (induction cells arbitrary: b)
  case Nil
  then show ?case by simp
next
  case (Cons yx cells)
  obtain y x where yx: "yx = (y, x)" by (cases yx)
  show ?case
    by (cases "setCell b (int y + pos_y pos) (int x + pos_x pos) c")
       (simp_all add: yx Let_def Cons.IH)
qed

lemma setCell_wellShaped:
  assumes "wellShaped b" and "0 \<le> boardY" and "boardY < 20" and "0 \<le> boardX" and "boardX < 10"
  shows "\<exists>nb. setCell b boardY boardX c = Inr nb \<and> wellShaped nb"
proof -
  from assms have row: "nat boardY < length b" and len: "length (b ! nat boardY) = 10"
    by (simp_all add: wellShaped_def list_all_length)
  moreover from assms(4,5) have "nat boardX < 10" by simp
  ultimately have new: "length (setIndex (b ! nat boardY) boardX c) = 10"
    using assms(4) by (simp add: setIndex_def)
  have upd: "wellShaped (b[nat boardY := setIndex (b ! nat boardY) boardX c])"
    unfolding wellShaped_def list_all_length
  proof (intro conjI allI impI)
    show "length (b[nat boardY := setIndex (b ! nat boardY) boardX c]) = 20"
      using assms(1) by (simp add: wellShaped_def)
    fix n
    assume "n < length (b[nat boardY := setIndex (b ! nat boardY) boardX c])"
    then have n: "n < length b" by simp
    with assms(1) have "length (b ! n) = 10"
      by (simp add: wellShaped_def list_all_length)
    with n new show "length (b[nat boardY := setIndex (b ! nat boardY) boardX c] ! n) = 10"
      by (cases "n = nat boardY") simp_all
  qed
  with row show ?thesis
    by (simp add: setCell_def)
qed

lemma writeCells_wellShaped:
  assumes "wellShaped b"
    and "list_all (\<lambda>(boardY, boardX). 0 \<le> boardY \<and> boardY < 20 \<and> 0 \<le> boardX \<and> boardX < 10) ws"
  shows "\<exists>nb. writeCells b ws c = Inr nb \<and> wellShaped nb"
  using assms
proof (induction ws arbitrary: b)
  case Nil
  then show ?case by simp
next
  case (Cons w ws)
  obtain boardY boardX where w: "w = (boardY, boardX)" by (cases w)
  with Cons.prems(2) have "0 \<le> boardY" "boardY < 20" "0 \<le> boardX" "boardX < 10"
    and rest: "list_all (\<lambda>(boardY, boardX). 0 \<le> boardY \<and> boardY < 20 \<and> 0 \<le> boardX \<and> boardX < 10) ws"
    by simp_all
  with setCell_wellShaped[OF Cons.prems(1)] obtain b1 where
    b1: "setCell b boardY boardX c = Inr b1" and ws1: "wellShaped b1"
    by blast
  from Cons.IH[OF ws1 rest] b1 w show ?case by simp
qed

text \<open>
  C10. When the current piece has a mask at its rotation and the collision rule does not
  report its placement, the merge of lines 145 to 155 is the sequence of the assignments
  \<open>mergeWrites\<close>, each of them to a row from 0 to 19 and a column from 0 to 9; on a board
  of 20 rows of 10 cells it raises no error and leaves a board of 20 rows of 10 cells.
\<close>

theorem merge_writes_in_bounds:
  assumes "currentPiece s = Some cp" and "T cp = Some tet"
    and "maskOf T cp (rotation s) = Some m"
    and "\<not> checkCollision T (board s) cp (pos_x (position s)) (pos_y (position s)) (rotation s)"
  shows "mergeCells (board s) (maskCells m) (position s) (Cell (color tet) True) =
           writeCells (board s) (mergeWrites m (position s)) (Cell (color tet) True) \<and>
         list_all (\<lambda>(boardY, boardX). 0 \<le> boardY \<and> boardY < 20 \<and> 0 \<le> boardX \<and> boardX < 10)
           (mergeWrites m (position s)) \<and>
         (wellShaped (board s) \<longrightarrow>
            (\<exists>nb. mergeCells (board s) (maskCells m) (position s) (Cell (color tet) True) = Inr nb \<and>
                  wellShaped nb \<and> lockBoard T s = clearRows 0 nb 0))"
proof -
  have eq: "mergeCells (board s) (maskCells m) (position s) (Cell (color tet) True) =
           writeCells (board s) (mergeWrites m (position s)) (Cell (color tet) True)"
    by (simp add: mergeCells_writeCells mergeWrites_def)
  from assms(3,4) have free: "\<forall>(y, x) \<in> set (maskCells m).
      \<not> blocked (board s) (int x + pos_x (position s)) (int y + pos_y (position s))"
    by (auto simp: checkCollision_def list_ex_iff)
  have inb: "list_all (\<lambda>(boardY, boardX). 0 \<le> boardY \<and> boardY < 20 \<and> 0 \<le> boardX \<and> boardX < 10)
           (mergeWrites m (position s))"
    using free by (auto simp: mergeWrites_def list_all_iff blocked_def)
  have "\<exists>nb. mergeCells (board s) (maskCells m) (position s) (Cell (color tet) True) = Inr nb \<and>
              wellShaped nb \<and> lockBoard T s = clearRows 0 nb 0"
    if ws: "wellShaped (board s)"
  proof -
    from assms(2,3) have rot: "rotation s < length (shape tet)"
      and m: "m = shape tet ! rotation s"
      by (auto simp: maskOf_def split: if_splits)
    from writeCells_wellShaped[OF ws inb, of "Cell (color tet) True"]
    obtain nb where nb: "mergeCells (board s) (maskCells m) (position s) (Cell (color tet) True) = Inr nb"
      and shaped: "wellShaped nb"
      by (auto simp: eq)
    with assms(1,2) rot m have "lockBoard T s = clearRows 0 nb 0"
      by (simp add: lockBoard_def)
    with nb shaped show ?thesis by blast
  qed
  with eq inb show ?thesis by blast
qed

lemma demoGap_free:
  "\<not> checkCollision demoTable (board demoGap) ''O'' (pos_x (position demoGap))
        (pos_y (position demoGap)) (rotation demoGap)"
proof -
  have b: "replicate 19 emptyRow @ [gapRow] = replicate 18 emptyRow @ [emptyRow, gapRow]"
    by (simp add: eval_nat_numeral replicate_append_same)
  show ?thesis
    by (simp add: checkCollision_def maskOf_def demoTable_def demo_maskO blocked_def occupied_def
        demoGap_def b nth_append emptyRow_def gapRow_def)
qed

theorem merge_writes_in_bounds_witness:
  "mergeWrites [[1, 1], [1, 1]] (position demoGap) = [(18, 4), (18, 5), (19, 4), (19, 5)] \<and>
   mergeCells (board demoGap) (maskCells [[1, 1], [1, 1]]) (position demoGap)
     (Cell ''yellow'' True) = Inr mergedGap \<and>
   wellShaped mergedGap"
proof -
  have cp: "currentPiece demoGap = Some ''O''"
    by (simp add: demoGap_def)
  have tet: "demoTable ''O'' =
      Some \<lparr> shape = [[[1, 1], [1, 1]], [[1, 1], [1, 1]], [[1, 1], [1, 1]], [[1, 1], [1, 1]]],
             color = ''yellow'' \<rparr>"
    by (simp add: demoTable_def)
  have m: "maskOf demoTable ''O'' (rotation demoGap) = Some [[1, 1], [1, 1]]"
    by (simp add: maskOf_def demoTable_def demoGap_def)
  have ws: "wellShaped (board demoGap)"
    by (simp add: wellShaped_def demoGap_def emptyRow_def gapRow_def list_all_iff)
  have w: "mergeWrites [[1, 1], [1, 1]] (position demoGap) = [(18, 4), (18, 5), (19, 4), (19, 5)]"
    by (simp add: mergeWrites_def demo_maskO demoGap_def)
  have mg: "mergeCells (board demoGap) (maskCells [[1, 1], [1, 1]]) (position demoGap)
     (Cell ''yellow'' True) = Inr mergedGap"
    using demo_merge by (simp add: demoGap_def demo_maskO)
  from merge_writes_in_bounds[OF cp tet m demoGap_free] ws w mg
  show ?thesis
    by auto
qed

subsection \<open>The hard drop\<close>

lemma dropLoop_rests:
  assumes "dropLoop cc b cp px rot y0 = Some newY"
  shows "y0 \<le> newY \<and> cc b cp px (newY + 1) rot \<and>
         (\<forall>y'. y0 \<le> y' \<and> y' < newY \<longrightarrow> \<not> cc b cp px (y' + 1) rot)"
proof (rule dropLoop.raw_induct[where P = "\<lambda>cc b cp px rot y0 newY.
         y0 \<le> newY \<and> cc b cp px (newY + 1) rot \<and>
         (\<forall>y'. y0 \<le> y' \<and> y' < newY \<longrightarrow> \<not> cc b cp px (y' + 1) rot)", OF _ assms])
  fix f :: "collision \<Rightarrow> Board \<Rightarrow> string \<Rightarrow> int \<Rightarrow> nat \<Rightarrow> int \<Rightarrow> int option"
    and cc b cp px rot y0 newY
  assume IH: "\<And>cc b cp px rot y0 newY. f cc b cp px rot y0 = Some newY \<Longrightarrow>
         y0 \<le> newY \<and> cc b cp px (newY + 1) rot \<and>
         (\<forall>y'. y0 \<le> y' \<and> y' < newY \<longrightarrow> \<not> cc b cp px (y' + 1) rot)"
    and step: "(if \<not> cc b cp px (y0 + 1) rot then f cc b cp px rot (y0 + 1) else Some y0) =
               Some newY"
  show "y0 \<le> newY \<and> cc b cp px (newY + 1) rot \<and>
         (\<forall>y'. y0 \<le> y' \<and> y' < newY \<longrightarrow> \<not> cc b cp px (y' + 1) rot)"
  proof (cases "cc b cp px (y0 + 1) rot")
    case True
    with step have "newY = y0" by simp
    with True show ?thesis by auto
  next
    case False
    with step have "f cc b cp px rot (y0 + 1) = Some newY" by simp
    from IH[OF this] have up: "y0 + 1 \<le> newY" and hit: "cc b cp px (newY + 1) rot"
      and free: "\<forall>y'. y0 + 1 \<le> y' \<and> y' < newY \<longrightarrow> \<not> cc b cp px (y' + 1) rot"
      by simp_all
    have "\<not> cc b cp px (y' + 1) rot" if "y0 \<le> y' \<and> y' < newY" for y'
    proof (cases "y' = y0")
      case True
      with False show ?thesis by simp
    next
      case False
      with that have "y0 + 1 \<le> y' \<and> y' < newY" by simp
      with free show ?thesis by blast
    qed
    with up hit show ?thesis by simp
  qed
qed

lemma dropLoop_returns:
  assumes "cc b cp px (y0 + int k + 1) rot"
    and "\<forall>j<k. \<not> cc b cp px (y0 + int j + 1) rot"
  shows "dropLoop cc b cp px rot y0 = Some (y0 + int k)"
  using assms
proof (induction k arbitrary: y0)
  case 0
  then show ?case by (subst dropLoop.simps) simp
next
  case (Suc k)
  from Suc.prems(2) have first: "\<not> cc b cp px (y0 + 1) rot"
    by (drule_tac x = 0 in spec) simp
  have "cc b cp px (y0 + 1 + int k + 1) rot"
    using Suc.prems(1) by (simp add: add.assoc add.commute)
  moreover have "\<forall>j<k. \<not> cc b cp px (y0 + 1 + int j + 1) rot"
  proof (intro allI impI)
    fix j
    assume "j < k"
    then have "\<not> cc b cp px (y0 + int (Suc j) + 1) rot"
      using Suc.prems(2) by (drule_tac x = "Suc j" in spec) simp
    then show "\<not> cc b cp px (y0 + 1 + int j + 1) rot"
      by (simp add: add.assoc add.commute)
  qed
  ultimately have "dropLoop cc b cp px rot (y0 + 1) = Some (y0 + 1 + int k)"
    by (rule Suc.IH)
  with first show ?case
    by (subst dropLoop.simps) (simp add: add.assoc add.commute)
qed


text \<open>
  C1. On a running session with an on-deck piece, whenever \<open>dropPieceToBottom\<close> returns,
  its loop has found the first row \<open>newY\<close> at or below the anchor from which the piece
  cannot go one row down: no placement from the anchor to \<open>newY\<close> is reported one row
  lower, and the placement below \<open>newY\<close> is. The lock sequence that follows is the one
  of the rendered state: the result is that of \<open>updateBoard\<close> on the state before the
  drop, in which the piece is merged at the anchor it had, whatever \<open>newY\<close> is.
\<close>

theorem hardDrop_locks_at_rendered_anchor:
  assumes "running s" and "truthy (nextPiece s)" and "currentPiece s = Some cp"
    and "dropPieceToBottom cc T rnd s = Some r"
  shows "r = updateBoard cc T rnd s s \<and>
         (\<exists>newY. dropLoop cc (board s) cp (pos_x (position s)) (rotation s) (pos_y (position s)) =
                   Some newY \<and>
                 pos_y (position s) \<le> newY \<and>
                 cc (board s) cp (pos_x (position s)) (newY + 1) (rotation s) \<and>
                 (\<forall>y'. pos_y (position s) \<le> y' \<and> y' < newY \<longrightarrow>
                    \<not> cc (board s) cp (pos_x (position s)) (y' + 1) (rotation s)))"
proof -
  from assms(1,3,4) obtain newY where
    loop: "dropLoop cc (board s) cp (pos_x (position s)) (rotation s) (pos_y (position s)) =
             Some newY"
    by (auto simp: dropPieceToBottom_def running_def split: option.splits)
  from dropPieceToBottom_cases[OF assms(2,4)] assms(1) have "r = updateBoard cc T rnd s s"
    by simp
  with loop dropLoop_rests[OF loop] show ?thesis by blast
qed

lemma demo_empty_free:
  "checkCollision demoTable createEmptyBoard ''O'' 4 y 0 = (19 \<le> y)"
proof -
  have "\<not> occupied createEmptyBoard bx by" for bx "by"
    by (auto simp: occupied_def createEmptyBoard_def)
  then show ?thesis
    by (auto simp: checkCollision_def maskOf_def demoTable_def demo_maskO blocked_def)
qed

lemma demo_dropLoop:
  "dropLoop (checkCollision demoTable) createEmptyBoard ''O'' 4 0 0 = Some 18"
  using dropLoop_returns[of "checkCollision demoTable" createEmptyBoard "''O''" 4 0 18 0]
  by (simp add: demo_empty_free)

lemma demo_top_merge:
  "mergeCells createEmptyBoard [(0,0),(0,1),(1,0),(1,1)] \<lparr> pos_x = 4, pos_y = 0 \<rparr>
     (Cell ''yellow'' True) = Inr (board demoOver)"
proof -
  have b: "createEmptyBoard = [emptyRow, emptyRow] @ replicate 18 emptyRow"
    by (simp add: createEmptyBoard_def emptyRow_def eval_nat_numeral)
  show ?thesis
    unfolding b
    by (simp add: setCell_def setIndex_def Let_def demoOver_def topRow_def emptyRow_expl
        list_update_append)
qed

lemma demo_top_lock: "lockBoard demoTable demoStart = Inr (board demoOver, 0)"
proof -
  have len: "length (board demoOver) = 20"
    by (simp add: demoOver_def)
  have "\<not> every topRow"
    by (simp add: every_def topRow_def list_all_iff)
  then have none: "filter every (board demoOver) = []"
    and all: "filter (\<lambda>r. \<not> every r) (board demoOver) = board demoOver"
    by (simp_all add: demoOver_def not_every_emptyRow)
  have "clearRows 0 (board demoOver) 0 = Inr (board demoOver, 0)"
    using clearRows_closed[OF len, of 0 0] by (simp add: none all)
  with demo_top_merge show ?thesis
    by (simp add: lockBoard_def demoTable_def demoStart_def demo_maskO)
qed

lemma demo_top_spawn: "checkCollision demoTable (board demoOver) ''I'' 3 0 0"
  by (simp add: checkCollision_def maskOf_def demoTable_def demo_maskI blocked_def occupied_def
      demoOver_def topRow_def nth_append)

lemma demo_top_update:
  "updateBoard (checkCollision demoTable) demoTable ''O'' demoStart demoStart = Inr demoOver"
proof -
  have nxt: "nextPiece demoStart = Some ''I''" and cur: "currentPiece demoStart = Some ''O''"
    by (simp_all add: demoStart_def)
  show ?thesis
    using demo_top_spawn
    by (simp add: updateBoard_def demo_top_lock nxt cur finishLock_def spawnNext_def Let_def
          demoTable_def)
       (simp add: demoStart_def demoOver_def)
qed

lemma demo_hardDrop:
  "dropPieceToBottom (checkCollision demoTable) demoTable ''O'' demoStart = Some (Inr demoOver)"
proof -
  have nxt: "truthy (nextPiece demoStart)" and cur: "truthy (currentPiece demoStart)"
    and cp: "currentPiece demoStart = Some ''O''"
    and run: "\<not> gameOver demoStart" "gameStarted demoStart"
    by (simp_all add: demoStart_def)
  have "dropLoop (checkCollision demoTable) (board demoStart) ''O''
          (pos_x (position demoStart)) (rotation demoStart) (pos_y (position demoStart)) = Some 18"
    using demo_dropLoop by (simp add: demoStart_def)
  then show ?thesis
    using demo_top_update
    by (simp add: dropPieceToBottom_def updateBoard_position[OF cur nxt] cp run)
qed

theorem hardDrop_locks_at_rendered_anchor_witness:
  "dropPieceToBottom (checkCollision demoTable) demoTable ''O'' demoStart = Some (Inr demoOver) \<and>
   dropLoop (checkCollision demoTable) (board demoStart) ''O'' 4 0 0 = Some 18 \<and>
   Inr demoOver = updateBoard (checkCollision demoTable) demoTable ''O'' demoStart demoStart \<and>
   board demoOver ! 0 ! 4 = Cell ''yellow'' True \<and> board demoOver ! 1 ! 4 = Cell ''yellow'' True \<and>
   board demoOver ! 18 ! 4 = Null \<and> board demoOver ! 19 ! 4 = Null \<and> gameOver demoOver"
proof -
  have run: "running demoStart" and nxt: "truthy (nextPiece demoStart)"
    and cur: "currentPiece demoStart = Some ''O''"
    by (simp_all add: running_def demoStart_def)
  from hardDrop_locks_at_rendered_anchor[OF run nxt cur demo_hardDrop] demo_hardDrop demo_dropLoop
  show ?thesis
    by (simp add: demoStart_def demoOver_def topRow_def emptyRow_def nth_append)
qed

subsection \<open>The drop interval after a lock\<close>

lemma tall_merge:
  "mergeCells (board demoTall) [(0,0),(0,1),(1,0),(1,1)] (position demoTall)
     (Cell ''yellow'' True) = Inr tallMerged"
  by (simp add: demoTall_def setCell_def setIndex_def Let_def nth_append list_update_append
      colRow_def gapRow_def tallMerged_def)

lemma tall_lock: "lockBoard demoTable demoTall = Inr (tallBoard, 1)"
proof -
  have len: "length tallMerged = 20"
    by (simp add: tallMerged_def)
  have col: "\<not> every colRow"
    by (simp add: every_def colRow_def)
  have full: "filter every tallMerged =
      [replicate 4 (Cell ''cyan'' True) @ [Cell ''yellow'' True, Cell ''yellow'' True] @
        replicate 4 (Cell ''cyan'' True)]"
    by (simp add: tallMerged_def col) (simp add: every_def list_all_iff)
  have rest: "filter (\<lambda>r. \<not> every r) tallMerged = replicate 18 colRow @
     [[Null, Null, Null, Cell ''cyan'' True] @ [Cell ''yellow'' True, Cell ''yellow'' True] @
        replicate 4 Null]"
    by (simp add: tallMerged_def col) (simp add: every_def list_all_iff)
  have "clearRows 0 tallMerged 0 = Inr (tallBoard, 1)"
    using clearRows_closed[OF len, of 0 0] by (simp add: full rest tallBoard_def)
  with tall_merge show ?thesis
    by (simp add: lockBoard_def demoTable_def demoTall_def demo_maskO)
qed

lemma tall_spawn: "checkCollision demoTable tallBoard ''I'' 3 0 0"
  by (simp add: checkCollision_def maskOf_def demoTable_def demo_maskI blocked_def occupied_def
      tallBoard_def colRow_def nth_append)

lemma tall_update:
  "updateBoard (checkCollision demoTable) demoTable ''O'' demoTall demoTall = Inr demoTallAfter"
proof -
  have fin: "finishLock (checkCollision demoTable) ''I'' 4 ''O'' tallBoard (Suc 0)
               demoTall demoTall = demoTallAfter"
    using tall_spawn
    by (simp add: finishLock_def rowsUpdater_def spawnNext_def scoreUpdate_def points_def Let_def)
       (simp add: demoTall_def demoTallAfter_def)
  have nxt: "nextPiece demoTall = Some ''I''" and cur: "currentPiece demoTall = Some ''O''"
    by (simp_all add: demoTall_def)
  show ?thesis
    by (simp add: updateBoard_def tall_lock nxt cur fin demoTable_def)
qed

lemma demoTall_inv: "sessionInv demoTable demoTall"
  using demoTable_valid
  by (simp add: sessionInv_def demoTall_def list_all_iff)
     (auto simp: gapRow_def colRow_def every_def)

text \<open>
  C6. What a lock sequence that runs to its end does to the drop interval: when it
  cleared rows and the row count passed a multiple of 10, the interval is
  \<open>1000 * 0.8 ^ n\<close> for the new quotient \<open>n\<close>, whether or not the spawn placement is
  reported and the game-over flag set; otherwise it is absent when the spawn placement
  is reported, and as before when it is not. So a lock that raises the level and ends
  the game leaves a session that is over with a drop interval present.
\<close>

theorem lock_sets_dropTime_last:
  assumes "truthy (currentPiece s)" and "nextPiece s = Some np" and "np \<noteq> []"
    and "T np = Some tet" and "shape tet = m0 # ms" and "lockBoard T s = Inr (nb, cl)"
    and "updateBoard cc T rnd s t = Inr u"
  shows "gameOver u = (cc nb np ((10 - int (length m0)) div 2) 0 0 \<or> gameOver t) \<and>
         dropTime u =
           (if cl > 0 \<and> (rows t + cl) div 10 > rows t div 10
            then Some (1000 * 0.8 ^ ((rows t + cl) div 10))
            else if cc nb np ((10 - int (length m0)) div 2) 0 0 then None else dropTime t)"
proof -
  from assms(2,3) have "truthy (nextPiece s)" by simp
  with assms(7,1) obtain nb' cl' np' tet' m0' ms' where "lockBoard T s = Inr (nb', cl')"
    and "nextPiece s = Some np'" and "T np' = Some tet'" and "shape tet' = m0' # ms'"
    and "u = finishLock cc np' (int (length m0')) rnd nb' cl' s t"
    by (rule updateBoard_InrD)
  with assms(2,4,5,6) have "u = finishLock cc np (int (length m0)) rnd nb cl s t"
    by simp
  then show ?thesis
    by (simp add: finishLock_frame finishLock_counters)
qed

theorem lock_sets_dropTime_last_witness:
  "sessionInv demoTable demoTall \<and>
   act (checkCollision demoTable) demoTable ''O'' SoftDrop demoTall = Some (Inr demoTallAfter) \<and>
   gameOver demoTallAfter \<and> level demoTallAfter = 1 \<and> dropTime demoTallAfter = Some 800"
proof -
  have cur: "truthy (currentPiece demoTall)" and nxt: "nextPiece demoTall = Some ''I''"
    and ne: "''I'' \<noteq> []"
    by (simp_all add: demoTall_def)
  have tet: "demoTable ''I'' =
      Some \<lparr> shape = [[[0, 0, 0, 0], [1, 1, 1, 1], [0, 0, 0, 0], [0, 0, 0, 0]],
                      [[0, 0, 1, 0], [0, 0, 1, 0], [0, 0, 1, 0], [0, 0, 1, 0]],
                      [[0, 0, 0, 0], [0, 0, 0, 0], [1, 1, 1, 1], [0, 0, 0, 0]],
                      [[0, 1, 0, 0], [0, 1, 0, 0], [0, 1, 0, 0], [0, 1, 0, 0]]],
             color = ''cyan'' \<rparr>"
    by (simp add: demoTable_def)
  have shp: "shape \<lparr> shape = [[[0, 0, 0, 0], [1, 1, 1, 1], [0, 0, 0, 0], [0, 0, 0, 0]],
                      [[0, 0, 1, 0], [0, 0, 1, 0], [0, 0, 1, 0], [0, 0, 1, 0]],
                      [[0, 0, 0, 0], [0, 0, 0, 0], [1, 1, 1, 1], [0, 0, 0, 0]],
                      [[0, 1, 0, 0], [0, 1, 0, 0], [0, 1, 0, 0], [0, 1, 0, 0]]],
             color = ''cyan'' \<rparr> =
        [[0, 0, 0, 0], [1, 1, 1, 1], [0, 0, 0, 0], [0, 0, 0, 0]] #
        [[[0, 0, 1, 0], [0, 0, 1, 0], [0, 0, 1, 0], [0, 0, 1, 0]],
         [[0, 0, 0, 0], [0, 0, 0, 0], [1, 1, 1, 1], [0, 0, 0, 0]],
         [[0, 1, 0, 0], [0, 1, 0, 0], [0, 1, 0, 0], [0, 1, 0, 0]]]"
    by simp
  have soft: "act (checkCollision demoTable) demoTable ''O'' SoftDrop demoTall =
              Some (Inr demoTallAfter)"
  proof -
    have "checkCollision demoTable (board demoTall) ''O'' 4 19 0"
      by (simp add: checkCollision_def maskOf_def demoTable_def demo_maskO blocked_def)
    then show ?thesis
      using tall_update by (simp add: dropPiece_def) (simp add: demoTall_def)
  qed
  from lock_sets_dropTime_last[OF cur nxt ne tet shp tall_lock tall_update] tall_spawn
    demoTall_inv soft
  show ?thesis
    by (simp add: demoTall_def demoTallAfter_def)
qed

subsection \<open>The spawn after a lock\<close>







end
